theory Spec2Isabelle
  imports Complex_Main "HOL-Library.Sublist"
begin

section \<open>Python values and errors\<close>

text \<open>
  The scripts of the repository are Python. Exceptions that the scripts do not catch are
  results of the model: a function that can raise returns \<open>py_error + 'a\<close>.
  \<open>ClientError\<close> is the exception of a request to the object store that fails.
\<close>

datatype py_error =
  IndexError | KeyError | TypeError | ValueError | AttributeError | ClientError

section \<open>String builtins used by the scripts\<close>

text \<open>
  \<open>find_sep sep s\<close> is the leftmost occurrence of \<open>sep\<close> in \<open>s\<close>: the text before it and
  the text after it. It is the search that \<open>str.split\<close>, \<open>str.split(sep, 1)\<close> and the
  substring test \<open>sub in s\<close> share.
\<close>

fun find_sep :: "string \<Rightarrow> string \<Rightarrow> (string \<times> string) option" where
  "find_sep sep [] = (if sep = [] then Some ([], []) else None)"
| "find_sep sep (c # cs) =
     (if prefix sep (c # cs) then Some ([], drop (length sep) (c # cs))
      else map_option (\<lambda>(a, b). (c # a, b)) (find_sep sep cs))"

lemma find_sep_shorter:
  "find_sep sep s = Some (a, b) \<Longrightarrow> sep \<noteq> [] \<Longrightarrow> length b < length s"
proof (induction s arbitrary: a)
  case Nil
  then show ?case by simp
next
  case (Cons c cs)
  show ?case
  proof (cases "prefix sep (c # cs)")
    case True
    with Cons.prems show ?thesis by auto
  next
    case False
    with Cons.prems obtain a' where "find_sep sep cs = Some (a', b)"
      by (auto split: prod.splits)
    with Cons.IH Cons.prems(2) show ?thesis by fastforce
  qed
qed

text \<open>
  \<open>s.split(sep)\<close> for a non-empty separator: non-overlapping occurrences, left to right.
  Every call site of the scripts passes a non-empty literal; Python raises ValueError on
  an empty separator, which they cannot reach, and the model returns \<open>[s]\<close> there.
\<close>

function py_split :: "string \<Rightarrow> string \<Rightarrow> string list" where
  "py_split sep s =
     (if sep = [] then [s]
      else case find_sep sep s of
             None \<Rightarrow> [s]
           | Some (a, b) \<Rightarrow> a # py_split sep b)"
  by pat_completeness auto
termination
  by (relation "measure (\<lambda>(sep, s). length s)") (auto dest: find_sep_shorter)

declare py_split.simps [simp del]

text \<open>\<open>s.split(sep, 1)\<close>: at most one split, at the leftmost occurrence.\<close>

definition py_split1 :: "string \<Rightarrow> string \<Rightarrow> string list" where
  "py_split1 sep s =
     (case find_sep sep s of None \<Rightarrow> [s] | Some (a, b) \<Rightarrow> [a, b])"

text \<open>\<open>sep.join(xs)\<close>.\<close>

fun py_join :: "string \<Rightarrow> string list \<Rightarrow> string" where
  "py_join sep [] = []"
| "py_join sep [x] = x"
| "py_join sep (x # y # xs) = x @ sep @ py_join sep (y # xs)"

text \<open>\<open>sub in s\<close> on strings.\<close>

definition py_contains :: "string \<Rightarrow> string \<Rightarrow> bool" where
  "py_contains sub s = (find_sep sub s \<noteq> None)"

text \<open>
  \<open>s.lower()\<close> on the ASCII letters; a \<open>string\<close> is a list of bytes, and bytes outside
  \<open>A\<close>..\<open>Z\<close> are kept.
\<close>

definition lower_char :: "char \<Rightarrow> char" where
  "lower_char c =
     (if 65 \<le> (of_char c :: nat) \<and> (of_char c :: nat) \<le> 90
      then char_of ((of_char c :: nat) + 32) else c)"

definition py_lower :: "string \<Rightarrow> string" where
  "py_lower s = map lower_char s"

text \<open>\<open>xs[i]\<close> for a non-negative literal index.\<close>

definition py_index :: "'a list \<Rightarrow> nat \<Rightarrow> py_error + 'a" where
  "py_index xs i = (if i < length xs then Inr (xs ! i) else Inl IndexError)"

section \<open>parse-untappd-rss-feed-data: the title of a post\<close>

text \<open>
  \<open>split(strng, sep, n)\<close>: the utility that splits a string at the n-th occurrence of
  \<open>sep\<close>. It returns a pair, also when \<open>sep\<close> does not occur.
\<close>

definition split :: "string \<Rightarrow> string \<Rightarrow> nat \<Rightarrow> string \<times> string" where
  "split strng sep n =
     (let parts = py_split sep strng
      in (py_join sep (take n parts), py_join sep (drop n parts)))"

definition beer_ex_list :: "string list" where
  "beer_ex_list = [''victory at sea'', ''murder at schrute farm...death by fire'']"

text \<open>
  The part of \<open>parse_post\<close> that reads the title: the beer name and the venue
  (the fourth and fifth column of the row). \<open>y[1]\<close> and \<open>y[1].split(' ', 1)[1]\<close> raise
  IndexError when the title has no \<open>' is drinking '\<close> or when a single word follows it.
  \<open>s\<close> is a pair, so \<open>len(s) > 1\<close> holds and the venue is always \<open>s[1]\<close>.
\<close>

definition parse_title :: "string \<Rightarrow> py_error + (string \<times> string)" where
  "parse_title title =
     (let loc_idx = (if list_ex (\<lambda>sbstr. py_contains sbstr (py_lower title)) beer_ex_list
                     then 2 else 1);
          s = split title '' at '' loc_idx;
          y = py_split '' is drinking '' (fst s)
      in case py_index y 1 of
           Inl e \<Rightarrow> Inl e
         | Inr y1 \<Rightarrow>
             (case py_index (py_split1 '' '' y1) 1 of
                Inl e \<Rightarrow> Inl e
              | Inr beer \<Rightarrow> Inr (beer, snd s)))"


section \<open>update-untappd-rss-feed-data: the ingestion watermark\<close>

text \<open>
  \<open>s.rsplit(c, 1)[-1]\<close> and \<open>s.split(c)[-1]\<close> for a one-character separator: the text
  after the last occurrence, or all of \<open>s\<close> when there is none.
\<close>

definition after_last :: "char \<Rightarrow> string \<Rightarrow> string" where
  "after_last c s = rev (takeWhile (\<lambda>x. x \<noteq> c) (rev s))"

text \<open>
  A feed entry: \<open>post['id']\<close>, the permalink of the checkin, and
  \<open>post['title_detail']['base']\<close>, the url of the brewery's feed.
\<close>

record post =
  entry_id :: string
  title_base :: string

text \<open>
  The bucket as the script sees it: the watermark of \<open>last_update.json\<close>, which
  \<open>get_last_update_id\<close> reads at the start of a run and which is an integer, and the
  \<open>put_object\<close> calls that wrote posts, oldest first. A call is kept as the brewery id and
  the post id of its key \<open>{brewery_id}/{brewery_id}-{post_id}\<close> and the post it stored.
\<close>

record bucket =
  last_update_id :: int
  post_puts :: "(string \<times> int \<times> post) list"

definition write_post_to_s3 :: "bucket \<Rightarrow> post \<Rightarrow> int \<Rightarrow> bucket" where
  "write_post_to_s3 b p pid =
     b\<lparr>post_puts := post_puts b @ [(after_last CHR ''/'' (title_base p), pid, p)]\<rparr>"

text \<open>\<open>int(post['id'].rsplit('/', 1)[-1])\<close>, with the builtin \<open>int\<close> as \<open>to_int\<close>.\<close>

definition post_id :: "(string \<Rightarrow> py_error + int) \<Rightarrow> post \<Rightarrow> py_error + int" where
  "post_id to_int p = to_int (after_last CHR ''/'' (entry_id p))"

text \<open>
  The loop of \<open>main\<close> over the delivered posts. Where \<open>int\<close> raises ValueError the run
  ends there, with the posts written so far in the bucket. Every post is compared with
  \<open>last_update_id\<close>, the watermark read at the start of the run, which the loop never
  changes. The result is the error, if one was raised, \<open>most_recent_id\<close> and the bucket.
\<close>

fun write_new_posts ::
  "(string \<Rightarrow> py_error + int) \<Rightarrow> int \<Rightarrow> post list \<Rightarrow> int \<times> bucket
     \<Rightarrow> py_error option \<times> int \<times> bucket" where
  "write_new_posts to_int last_id [] (most_recent_id, b) = (None, most_recent_id, b)"
| "write_new_posts to_int last_id (p # ps) (most_recent_id, b) =
     (case post_id to_int p of
        Inl e \<Rightarrow> (Some e, most_recent_id, b)
      | Inr pid \<Rightarrow>
          if pid > last_id
          then write_new_posts to_int last_id ps
                 (max most_recent_id pid, write_post_to_s3 b p pid)
          else write_new_posts to_int last_id ps (most_recent_id, b))"

text \<open>
  One run of \<open>main\<close> on the delivered posts. \<open>set_last_update_id\<close> is reached only by a
  run that did not raise; a run that raised leaves \<open>last_update.json\<close> as it was.
\<close>

definition update_main ::
  "(string \<Rightarrow> py_error + int) \<Rightarrow> post list \<Rightarrow> bucket \<Rightarrow> py_error option \<times> bucket" where
  "update_main to_int posts b =
     (case write_new_posts to_int (last_update_id b) posts (last_update_id b, b) of
        (Some e, most_recent_id, b') \<Rightarrow> (Some e, b')
      | (None, most_recent_id, b') \<Rightarrow> (None, b'\<lparr>last_update_id := most_recent_id\<rparr>))"

text \<open>The ids of the posts that a run wrote: the puts of \<open>b'\<close> that \<open>b\<close> did not have.\<close>

definition written_ids :: "bucket \<Rightarrow> bucket \<Rightarrow> int list" where
  "written_ids b b' = map (\<lambda>(brewery, pid, p). pid) (drop (length (post_puts b)) (post_puts b'))"

text \<open>
  The value of \<open>int\<close> on a string of ASCII decimal digits, which is what the last segment
  of a checkin permalink is; ValueError on the empty string and on a string with another
  character.
\<close>

definition digit_val :: "char \<Rightarrow> int option" where
  "digit_val c =
     (if 48 \<le> (of_char c :: nat) \<and> (of_char c :: nat) \<le> 57
      then Some (int (of_char c) - 48) else None)"

fun digits_int :: "int \<Rightarrow> string \<Rightarrow> py_error + int" where
  "digits_int acc [] = Inr acc"
| "digits_int acc (c # cs) =
     (case digit_val c of None \<Rightarrow> Inl ValueError | Some d \<Rightarrow> digits_int (10 * acc + d) cs)"

definition decimal_int :: "string \<Rightarrow> py_error + int" where
  "decimal_int s = (if s = [] then Inl ValueError else digits_int 0 s)"

section \<open>get-untappd-venue-locations: the tag scanners\<close>

text \<open>
  The events that \<open>HTMLParser.feed\<close> hands to the handlers, in document order. An
  attribute written without a value has the value \<open>None\<close>.
\<close>

datatype token =
  StartTag string "(string \<times> string option) list"
| EndTag string
| Data string

subsection \<open>CheckinHTMLParser\<close>

record checkin_parser =
  found_p :: bool
  url :: "string option list"

definition checkin_init :: checkin_parser where
  "checkin_init = \<lparr>found_p = False, url = []\<rparr>"

text \<open>
  \<open>handle_starttag\<close>: the first loop returns at a \<open>class\<close> attribute equal to
  \<open>'location'\<close>, the second appends the value of the first \<open>href\<close> attribute.
\<close>

definition checkin_starttag ::
  "checkin_parser \<Rightarrow> string \<Rightarrow> (string \<times> string option) list \<Rightarrow> checkin_parser" where
  "checkin_starttag st tag attributes =
     (if tag \<noteq> ''a'' \<and> tag \<noteq> ''p'' then st
      else if \<not> found_p st \<and> tag = ''p''
              \<and> list_ex (\<lambda>(name, v). name = ''class'' \<and> v = Some ''location'') attributes
           then st\<lparr>found_p := True\<rparr>
      else if found_p st \<and> tag = ''a''
           then (case find (\<lambda>(name, v). name = ''href'') attributes of
                   None \<Rightarrow> st
                 | Some (name, v) \<Rightarrow> st\<lparr>url := url st @ [v]\<rparr>)
      else st)"

definition checkin_endtag :: "checkin_parser \<Rightarrow> string \<Rightarrow> checkin_parser" where
  "checkin_endtag st tag = (if tag = ''p'' then st\<lparr>found_p := False\<rparr> else st)"

fun checkin_handle :: "checkin_parser \<Rightarrow> token \<Rightarrow> checkin_parser" where
  "checkin_handle st (StartTag tag attributes) = checkin_starttag st tag attributes"
| "checkin_handle st (EndTag tag) = checkin_endtag st tag"
| "checkin_handle st (Data d) = st"

definition checkin_feed :: "checkin_parser \<Rightarrow> token list \<Rightarrow> checkin_parser" where
  "checkin_feed st ts = foldl checkin_handle st ts"

subsection \<open>VenueHTMLParser\<close>

record venue_parser =
  found_div :: bool
  urls :: "string list"
  coords :: "string option list"

definition venue_init :: venue_parser where
  "venue_init = \<lparr>found_div = False, urls = [], coords = []\<rparr>"

text \<open>\<open>dict(attributes)\<close>: of two attributes with one name the later one stays.\<close>

definition attributes_dict :: "(string \<times> string option) list \<Rightarrow> string \<rightharpoonup> string option" where
  "attributes_dict attributes = map_of (rev attributes)"

text \<open>
  \<open>handle_starttag\<close>. \<open>attributes_dict['content']\<close> and \<open>attributes_dict['href']\<close> raise
  KeyError when the tag has no such attribute, and \<open>.split('?')\<close> raises AttributeError
  on an \<open>href\<close> without a value.
\<close>

definition venue_starttag ::
  "venue_parser \<Rightarrow> string \<Rightarrow> (string \<times> string option) list \<Rightarrow> py_error + venue_parser" where
  "venue_starttag st tag attributes =
     (if tag \<noteq> ''div'' \<and> tag \<noteq> ''a'' \<and> tag \<noteq> ''meta'' then Inr st
      else let d = attributes_dict attributes in
        if tag = ''meta'' \<and> d ''property'' \<noteq> None
        then (if d ''property'' = Some (Some ''place:location:latitude'')
                 \<or> d ''property'' = Some (Some ''place:location:longitude'')
              then (case d ''content'' of
                      None \<Rightarrow> Inl KeyError
                    | Some c \<Rightarrow> Inr (st\<lparr>coords := coords st @ [c]\<rparr>))
              else Inr st)
        else if d ''class'' = None then Inr st
        else if \<not> found_div st \<and> tag = ''div'' \<and> d ''class'' = Some (Some ''venue-social'')
             then Inr (st\<lparr>found_div := True\<rparr>)
        else if found_div st \<and> tag = ''a'' \<and> d ''class'' = Some (Some ''fs track-click'')
             then (case d ''href'' of
                     None \<Rightarrow> Inl KeyError
                   | Some None \<Rightarrow> Inl AttributeError
                   | Some (Some h) \<Rightarrow> Inr (st\<lparr>urls := urls st @ [hd (py_split ''?'' h)]\<rparr>))
        else Inr st)"

definition venue_endtag :: "venue_parser \<Rightarrow> string \<Rightarrow> venue_parser" where
  "venue_endtag st tag = (if tag = ''div'' then st\<lparr>found_div := False\<rparr> else st)"

fun venue_handle :: "venue_parser \<Rightarrow> token \<Rightarrow> py_error + venue_parser" where
  "venue_handle st (StartTag tag attributes) = venue_starttag st tag attributes"
| "venue_handle st (EndTag tag) = Inr (venue_endtag st tag)"
| "venue_handle st (Data d) = Inr st"

fun venue_feed :: "venue_parser \<Rightarrow> token list \<Rightarrow> py_error + venue_parser" where
  "venue_feed st [] = Inr st"
| "venue_feed st (t # ts) =
     (case venue_handle st t of Inl e \<Rightarrow> Inl e | Inr st' \<Rightarrow> venue_feed st' ts)"


subsection \<open>The tokens that the nested-link rule names\<close>

text \<open>
  The qualifying container and the qualifying link of each scanner, as its
  \<open>handle_starttag\<close> tests them: for the checkin page a \<open>p\<close> with a \<open>class\<close> attribute
  \<open>location\<close> and an \<open>a\<close> with an \<open>href\<close> attribute; for the venue page a \<open>div\<close> whose
  class is \<open>venue-social\<close> and an \<open>a\<close> whose class is \<open>fs track-click\<close>.
\<close>

definition checkin_container :: "token \<Rightarrow> bool" where
  "checkin_container t =
     (case t of
        StartTag tag attributes \<Rightarrow>
          tag = ''p'' \<and> list_ex (\<lambda>(name, v). name = ''class'' \<and> v = Some ''location'') attributes
      | _ \<Rightarrow> False)"

definition checkin_link :: "token \<Rightarrow> bool" where
  "checkin_link t =
     (case t of
        StartTag tag attributes \<Rightarrow>
          tag = ''a'' \<and> find (\<lambda>(name, v). name = ''href'') attributes \<noteq> None
      | _ \<Rightarrow> False)"

definition venue_container :: "token \<Rightarrow> bool" where
  "venue_container t =
     (case t of
        StartTag tag attributes \<Rightarrow>
          tag = ''div'' \<and> attributes_dict attributes ''class'' = Some (Some ''venue-social'')
      | _ \<Rightarrow> False)"

definition venue_link :: "token \<Rightarrow> bool" where
  "venue_link t =
     (case t of
        StartTag tag attributes \<Rightarrow>
          tag = ''a'' \<and> attributes_dict attributes ''class'' = Some (Some ''fs track-click'')
      | _ \<Rightarrow> False)"

section \<open>Values of the venue registry and of the lookup API\<close>

text \<open>
  A cell of a registry row and a value decoded by \<open>json.loads\<close>. A cell read from the csv
  file is a string; within a run a cell can also hold what the lookup API returned (a
  number for a coordinate, a boolean for the country match) or \<open>None\<close> (a \<open>meta\<close> tag whose
  \<open>content\<close> has no value). The keys of a \<open>PDict\<close> are distinct, as those of a Python dict.
\<close>

datatype pyval =
  PNone
| PBool bool
| PNum rat
| PStr string
| PList "pyval list"
| PDict "(string \<times> pyval) list"

fun truthy :: "pyval \<Rightarrow> bool" where
  "truthy PNone = False"
| "truthy (PBool b) = b"
| "truthy (PNum x) = (x \<noteq> 0)"
| "truthy (PStr s) = (s \<noteq> [])"
| "truthy (PList xs) = (xs \<noteq> [])"
| "truthy (PDict kvs) = (kvs \<noteq> [])"

text \<open>\<open>v[key]\<close> for a string key: KeyError on a dict without the key, TypeError on a
  value that is not a dict.\<close>

fun getitem :: "pyval \<Rightarrow> string \<Rightarrow> py_error + pyval" where
  "getitem (PDict kvs) key = (case map_of kvs key of None \<Rightarrow> Inl KeyError | Some v \<Rightarrow> Inr v)"
| "getitem v key = Inl TypeError"

text \<open>\<open>for x in v\<close>: the elements of a list, the keys of a dict, the characters of a
  string; TypeError on a value that is not iterable.\<close>

fun py_iter :: "pyval \<Rightarrow> py_error + pyval list" where
  "py_iter (PList xs) = Inr xs"
| "py_iter (PDict kvs) = Inr (map (\<lambda>(k, v). PStr k) kvs)"
| "py_iter (PStr s) = Inr (map (\<lambda>c. PStr [c]) s)"
| "py_iter v = Inl TypeError"

text \<open>A list comprehension whose element expression can raise: the first error ends it.\<close>

fun map_err :: "('a \<Rightarrow> py_error + 'b) \<Rightarrow> 'a list \<Rightarrow> py_error + 'b list" where
  "map_err f [] = Inr []"
| "map_err f (x # xs) =
     (case f x of
        Inl e \<Rightarrow> Inl e
      | Inr y \<Rightarrow> (case map_err f xs of Inl e \<Rightarrow> Inl e | Inr ys \<Rightarrow> Inr (y # ys)))"

text \<open>\<open>row[-5:] = new\<close>: the last five cells (all of them, in a shorter row) are replaced.\<close>

definition set_last5 :: "'a list \<Rightarrow> 'a list \<Rightarrow> 'a list" where
  "set_last5 row new = take (length row - 5) row @ new"

text \<open>\<open>row[-5:]\<close>.\<close>

definition last5 :: "'a list \<Rightarrow> 'a list" where
  "last5 row = drop (length row - 5) row"

text \<open>
  A Python dict in insertion order: assigning to a key that is present keeps its place,
  a new key goes to the end.
\<close>

fun dict_set :: "('k \<times> 'v) list \<Rightarrow> 'k \<Rightarrow> 'v \<Rightarrow> ('k \<times> 'v) list" where
  "dict_set [] k v = [(k, v)]"
| "dict_set ((k', v') # kvs) k v =
     (if k' = k then (k, v) # kvs else (k', v') # dict_set kvs k v)"

section \<open>get-untappd-venue-locations: the enrichment run\<close>

text \<open>
  What a run meets outside the script. The n-th request to Untappd is answered by
  \<open>untappd_get n\<close> (status code and the events of the page), the n-th request to
  Foursquare by \<open>foursquare_get n\<close> (status code and the decoded body, \<open>None\<close> where
  \<open>json.loads\<close> raises); \<open>requests.get\<close> itself is taken to return a response. The n-th
  reading of \<open>time.time()\<close> is \<open>clock n\<close>. A KeyboardInterrupt can arrive at any moment; the
  model asks \<open>interrupt n\<close> at the n-th of the moments where the registry can differ: the
  start of an iteration and the pause after each assignment to the registry. \<open>py_str\<close> is
  the builtin \<open>str\<close> on decoded values.
\<close>

record env =
  untappd_get :: "nat \<Rightarrow> int \<times> token list"
  foursquare_get :: "nat \<Rightarrow> int \<times> pyval option"
  clock :: "nat \<Rightarrow> rat"
  interrupt :: "nat \<Rightarrow> bool"
  py_str :: "pyval \<Rightarrow> string"

text \<open>
  The variables of \<open>main\<close> and the trace of the run: the urls requested from Untappd, the
  \<open>query\<close> and \<open>ll\<close> parameters of the searches sent to Foursquare, the number of clock
  readings and of interrupt polls, and the rows of every upload of
  \<open>venue_locations.csv\<close>, oldest first.
\<close>

record state =
  venue_dict :: "(string \<times> pyval list) list"
  foursquare_available :: bool
  time_at_last_backup :: rat
  untappd_requests :: "string list"
  foursquare_requests :: "(string \<times> string) list"
  clock_reads :: nat
  polls :: nat
  uploads :: "pyval list list list"

definition missing5 :: "pyval list" where
  "missing5 = replicate 5 (PStr ''Missing'')"

definition empty5 :: "pyval list" where
  "empty5 = replicate 5 (PStr [])"

definition opt_str :: "string option \<Rightarrow> pyval" where
  "opt_str v = (case v of None \<Rightarrow> PNone | Some x \<Rightarrow> PStr x)"

text \<open>One \<open>requests.get\<close> to Untappd: the response and the state with the request logged.\<close>

definition get_untappd :: "env \<Rightarrow> string \<Rightarrow> state \<Rightarrow> (int \<times> token list) \<times> state" where
  "get_untappd e u s =
     (untappd_get e (length (untappd_requests s)),
      s\<lparr>untappd_requests := untappd_requests s @ [u]\<rparr>)"

text \<open>
  The second half of \<open>search_untappd\<close>: the request for the venue page and what the
  venue scanner found in it. \<open>coords[1]\<close> raises IndexError when the page has a single
  coordinate tag.
\<close>

definition search_venue_page ::
  "env \<Rightarrow> string \<Rightarrow> state \<Rightarrow> (py_error + pyval list) \<times> state" where
  "search_venue_page e untappd_venue_url s =
     (case get_untappd e untappd_venue_url s of
        ((status_code, html), s2) \<Rightarrow>
          if status_code = 404 then (Inr missing5, s2)
          else if status_code \<noteq> 200 then (Inr empty5, s2)
          else (case venue_feed venue_init html of
                  Inl err \<Rightarrow> (Inl err, s2)
                | Inr parser \<Rightarrow>
                    if urls parser \<noteq> [] \<and> coords parser \<noteq> []
                    then (case py_index (coords parser) 1 of
                            Inl err \<Rightarrow> (Inl err, s2)
                          | Inr c1 \<Rightarrow>
                              (Inr [PStr untappd_venue_url, PStr (hd (urls parser)), PStr [],
                                    opt_str (hd (coords parser)), opt_str c1], s2))
                    else (Inr missing5, s2)))"

text \<open>
  \<open>search_untappd\<close>: the checkin page, the venue link in it, then the venue page.
  \<open>'https://untappd.com' + parser.url[0]\<close> raises TypeError on an \<open>href\<close> without a value.
\<close>

definition search_untappd ::
  "env \<Rightarrow> string \<Rightarrow> state \<Rightarrow> (py_error + pyval list) \<times> state" where
  "search_untappd e checkin_url s =
     (case get_untappd e checkin_url s of
        ((status_code, html), s1) \<Rightarrow>
          if status_code = 404 then (Inr missing5, s1)
          else if status_code \<noteq> 200 then (Inr empty5, s1)
          else (case url (checkin_feed checkin_init html) of
                  [] \<Rightarrow> (Inr missing5, s1)
                | None # others \<Rightarrow> (Inl TypeError, s1)
                | Some u # others \<Rightarrow> search_venue_page e (''https://untappd.com'' @ u) s1))"

text \<open>
  The body of the \<open>try\<close> in \<open>search_foursquare\<close>: the row of a matching candidate, from
  its \<open>location\<close> and \<open>categories\<close>.
\<close>

definition category_names :: "(pyval \<Rightarrow> string) \<Rightarrow> pyval \<Rightarrow> py_error + pyval" where
  "category_names str categories =
     (if truthy categories
      then (case py_iter categories of
              Inl err \<Rightarrow> Inl err
            | Inr cs \<Rightarrow>
                (case map_err (\<lambda>category. getitem category ''name'') cs of
                   Inl err \<Rightarrow> Inl err
                 | Inr category_list \<Rightarrow> Inr (PStr (py_join '', '' (map str category_list)))))
      else Inr (PStr ''Uncategorized''))"

definition venue_row :: "(pyval \<Rightarrow> string) \<Rightarrow> pyval \<Rightarrow> pyval \<Rightarrow> py_error + pyval list" where
  "venue_row str venue categories =
     (case getitem venue ''formattedAddress'' of
        Inl err \<Rightarrow> Inl err
      | Inr fa \<Rightarrow>
     (case py_iter fa of
        Inl err \<Rightarrow> Inl err
      | Inr parts \<Rightarrow>
     (case getitem venue ''lat'' of
        Inl err \<Rightarrow> Inl err
      | Inr lat \<Rightarrow>
     (case getitem venue ''lng'' of
        Inl err \<Rightarrow> Inl err
      | Inr lng \<Rightarrow>
     (case category_names str categories of
        Inl err \<Rightarrow> Inl err
      | Inr cats \<Rightarrow>
     (case getitem venue ''country'' of
        Inl err \<Rightarrow> Inl err
      | Inr country \<Rightarrow>
          Inr [PStr (py_join '', '' (map str parts)), lat, lng, cats,
               PBool (country = PStr ''United States'')]))))))"

text \<open>
  The loop of \<open>search_foursquare\<close> over the candidates of the search. A candidate with
  another id is skipped; a KeyError inside the \<open>try\<close> is caught and the loop goes on to the
  next candidate; \<open>venue_item['location']\<close> and \<open>venue_item['categories']\<close> stand before
  the \<open>try\<close>. When no candidate returns, the row after the loop is returned.
\<close>

fun match_venues ::
  "(pyval \<Rightarrow> string) \<Rightarrow> string \<Rightarrow> pyval \<Rightarrow> pyval \<Rightarrow> pyval list \<Rightarrow> py_error + pyval list" where
  "match_venues str venue_id c0 c1 [] =
     Inr [PStr ''Missing'', c0, c1, PStr ''Missing'', PStr ''Missing'']"
| "match_venues str venue_id c0 c1 (venue_item # rest) =
     (case getitem venue_item ''id'' of
        Inl err \<Rightarrow> Inl err
      | Inr i \<Rightarrow>
          if i \<noteq> PStr venue_id then match_venues str venue_id c0 c1 rest
          else (case getitem venue_item ''location'' of
                  Inl err \<Rightarrow> Inl err
                | Inr venue \<Rightarrow>
               (case getitem venue_item ''categories'' of
                  Inl err \<Rightarrow> Inl err
                | Inr categories \<Rightarrow>
               (case venue_row str venue categories of
                  Inl err \<Rightarrow>
                    if err = KeyError then match_venues str venue_id c0 c1 rest else Inl err
                | Inr row \<Rightarrow> Inr row))))"

text \<open>What \<open>search_foursquare\<close> does with the response of the search.\<close>

definition search_response ::
  "(pyval \<Rightarrow> string) \<Rightarrow> string \<Rightarrow> pyval \<Rightarrow> pyval \<Rightarrow> int \<times> pyval option
     \<Rightarrow> py_error + pyval list" where
  "search_response str venue_id c0 c1 query =
     (if fst query \<noteq> 200 then Inr [PStr [], c0, c1, PStr [], PStr []]
      else case snd query of
             None \<Rightarrow> Inl ValueError
           | Some data \<Rightarrow>
        (case getitem data ''response'' of
           Inl err \<Rightarrow> Inl err
         | Inr response \<Rightarrow>
        (case getitem response ''venues'' of
           Inl err \<Rightarrow> Inl err
         | Inr venue_list \<Rightarrow>
        (case py_iter venue_list of
           Inl err \<Rightarrow> Inl err
         | Inr items \<Rightarrow> match_venues str venue_id c0 c1 items))))"

text \<open>
  \<open>search_foursquare\<close>. Before the request: \<open>venue_info[1]\<close>, \<open>[3]\<close> and \<open>[4]\<close> raise
  IndexError on a short row; a row whose Foursquare url is \<open>'Missing'\<close> returns without a
  request; \<open>venue_url.split\<close> raises AttributeError on a cell that is not a string and
  \<open>','.join(coords)\<close> TypeError on a coordinate that is not one.
\<close>

definition search_foursquare ::
  "env \<Rightarrow> string \<Rightarrow> pyval list \<Rightarrow> state \<Rightarrow> (py_error + pyval list) \<times> state" where
  "search_foursquare e venue venue_info s =
     (case py_index venue_info 1 of
        Inl err \<Rightarrow> (Inl err, s)
      | Inr venue_url \<Rightarrow>
     (case py_index venue_info 3 of
        Inl err \<Rightarrow> (Inl err, s)
      | Inr c0 \<Rightarrow>
     (case py_index venue_info 4 of
        Inl err \<Rightarrow> (Inl err, s)
      | Inr c1 \<Rightarrow>
          if venue_url = PStr ''Missing'' then (Inr missing5, s)
          else (case venue_url of
                  PStr u \<Rightarrow>
                    (case (c0, c1) of
                       (PStr lat, PStr long) \<Rightarrow>
                         (let query = foursquare_get e (length (foursquare_requests s));
                              s1 = s\<lparr>foursquare_requests :=
                                       foursquare_requests s @ [(venue, lat @ '','' @ long)]\<rparr>
                          in (search_response (py_str e) (after_last CHR ''/'' u) c0 c1 query, s1))
                     | _ \<Rightarrow> (Inl TypeError, s))
                | _ \<Rightarrow> (Inl AttributeError, s)))))"


subsection \<open>The loop of main\<close>

text \<open>How an iteration of a loop ends: it goes on to the next item, it leaves the loop by
  \<open>break\<close>, a KeyboardInterrupt arrived, or an exception that nothing catches was raised.\<close>

datatype flow = Continue | Break | Interrupted | Raised py_error

definition poll :: "env \<Rightarrow> state \<Rightarrow> bool \<times> state" where
  "poll e s = (interrupt e (polls s), s\<lparr>polls := polls s + 1\<rparr>)"

definition write_dict_to_csv :: "(string \<times> pyval list) list \<Rightarrow> pyval list list" where
  "write_dict_to_csv d = map (\<lambda>(venue, data). PStr venue # data) d"

definition backup_data :: "state \<Rightarrow> state" where
  "backup_data s = s\<lparr>uploads := uploads s @ [write_dict_to_csv (venue_dict s)]\<rparr>"

text \<open>The backup of a large batch, every 14 minutes and 45 seconds.\<close>

definition checkpoint :: "env \<Rightarrow> state \<Rightarrow> state" where
  "checkpoint e s =
     (let now = clock e (clock_reads s);
          s1 = s\<lparr>clock_reads := clock_reads s + 1\<rparr>
      in if now - time_at_last_backup s1 \<ge> 14 * 60 + 45
         then (let s2 = backup_data s1
               in s2\<lparr>time_at_last_backup := clock e (clock_reads s2),
                      clock_reads := clock_reads s2 + 1\<rparr>)
         else s1)"

text \<open>\<open>venue[0] not in venue_dict or not venue_dict[venue[0]][0]\<close>.\<close>

definition needs_untappd :: "(string \<times> pyval list) list \<Rightarrow> string \<Rightarrow> py_error + bool" where
  "needs_untappd d name =
     (case map_of d name of
        None \<Rightarrow> Inr True
      | Some row \<Rightarrow> (case py_index row 0 of Inl err \<Rightarrow> Inl err | Inr c \<Rightarrow> Inr (\<not> truthy c)))"

text \<open>
  The first \<open>if\<close> of the loop body: the record of a new venue, or of one without Untappd
  data, is replaced by the result of \<open>search_untappd\<close> and two empty cells; an empty first
  cell leaves the loop. The pause that follows a result is a moment where an interrupt
  is polled.
\<close>

definition untappd_step :: "env \<Rightarrow> string list \<Rightarrow> string \<Rightarrow> state \<Rightarrow> flow \<times> state" where
  "untappd_step e venue name s =
     (case needs_untappd (venue_dict s) name of
        Inl err \<Rightarrow> (Raised err, s)
      | Inr False \<Rightarrow> (Continue, s)
      | Inr True \<Rightarrow>
          (case py_index venue 1 of
             Inl err \<Rightarrow> (Raised err, s)
           | Inr checkin_url \<Rightarrow>
               (case search_untappd e checkin_url s of
                  (Inl err, s1) \<Rightarrow> (Raised err, s1)
                | (Inr found, s1) \<Rightarrow>
                    (let row = found @ [PStr [], PStr []];
                         s2 = s1\<lparr>venue_dict := dict_set (venue_dict s1) name row\<rparr>
                     in case py_index row 0 of
                          Inl err \<Rightarrow> (Raised err, s2)
                        | Inr c \<Rightarrow>
                            if \<not> truthy c then (Break, s2)
                            else (case poll e s2 of
                                    (True, s3) \<Rightarrow> (Interrupted, s3)
                                  | (False, s3) \<Rightarrow> (Continue, s3))))))"

text \<open>
  The second \<open>if\<close> of the loop body: while \<open>foursquare_available\<close>, a record with a
  Foursquare url and an empty cell has its last five cells replaced by the result of
  \<open>search_foursquare\<close>; an empty cell among them clears \<open>foursquare_available\<close>.
\<close>

definition foursquare_step :: "env \<Rightarrow> string \<Rightarrow> state \<Rightarrow> flow \<times> state" where
  "foursquare_step e name s =
     (if \<not> foursquare_available s then (Continue, s)
      else case map_of (venue_dict s) name of
             None \<Rightarrow> (Raised KeyError, s)
           | Some row \<Rightarrow>
        (case py_index row 1 of
           Inl err \<Rightarrow> (Raised err, s)
         | Inr foursquare_url \<Rightarrow>
             if \<not> (truthy foursquare_url \<and> PStr [] \<in> set row) then (Continue, s)
             else (case search_foursquare e name row s of
                     (Inl err, s1) \<Rightarrow> (Raised err, s1)
                   | (Inr found, s1) \<Rightarrow>
                       (let row' = set_last5 row found;
                            s2 = s1\<lparr>venue_dict := dict_set (venue_dict s1) name row'\<rparr>;
                            s3 = (if PStr [] \<in> set (last5 row')
                                  then s2\<lparr>foursquare_available := False\<rparr> else s2)
                        in case poll e s3 of
                             (True, s4) \<Rightarrow> (Interrupted, s4)
                           | (False, s4) \<Rightarrow> (Continue, s4)))))"

definition loop_body :: "env \<Rightarrow> string list \<Rightarrow> state \<Rightarrow> flow \<times> state" where
  "loop_body e venue s =
     (case poll e s of
        (True, s0) \<Rightarrow> (Interrupted, s0)
      | (False, s0) \<Rightarrow>
          (case py_index venue 0 of
             Inl err \<Rightarrow> (Raised err, s0)
           | Inr name \<Rightarrow>
               (case untappd_step e venue name s0 of
                  (Continue, s1) \<Rightarrow>
                    (case foursquare_step e name s1 of
                       (Continue, s2) \<Rightarrow> (Continue, checkpoint e s2)
                     | other \<Rightarrow> other)
                | other \<Rightarrow> other)))"

text \<open>\<open>for venue in venue_list\<close>; \<open>Continue\<close> is the end of the list.\<close>

fun venue_loop :: "env \<Rightarrow> string list list \<Rightarrow> state \<Rightarrow> flow \<times> state" where
  "venue_loop e [] s = (Continue, s)"
| "venue_loop e (venue # rest) s =
     (case loop_body e venue s of
        (Continue, s') \<Rightarrow> venue_loop e rest s'
      | other \<Rightarrow> other)"

text \<open>
  \<open>read_csv_to_dict\<close> on the rows below the header: \<open>venue, *data\<close> raises ValueError on
  an empty row, and a name that occurs again replaces the data of its first occurrence.
\<close>

fun read_rows ::
  "string list list \<Rightarrow> (string \<times> pyval list) list \<Rightarrow> py_error + (string \<times> pyval list) list" where
  "read_rows [] d = Inr d"
| "read_rows ([] # rows) d = Inl ValueError"
| "read_rows ((venue # data) # rows) d = read_rows rows (dict_set d venue (map PStr data))"

definition read_csv_to_dict :: "string list list \<Rightarrow> py_error + (string \<times> pyval list) list" where
  "read_csv_to_dict venue_list =
     (if venue_list \<noteq> [] \<and> hd venue_list \<noteq> [] then read_rows venue_list [] else Inr [])"

text \<open>The state in which the loop of \<open>main\<close> starts.\<close>

definition initial_state :: "env \<Rightarrow> (string \<times> pyval list) list \<Rightarrow> state" where
  "initial_state e d =
     \<lparr>venue_dict = d, foursquare_available = True, time_at_last_backup = clock e 0,
      untappd_requests = [], foursquare_requests = [], clock_reads = 1, polls = 0,
      uploads = []\<rparr>"

text \<open>
  \<open>main\<close> on the rows of \<open>venue_list.csv\<close> and of \<open>venue_locations.csv\<close>. The \<open>try\<close> catches
  KeyboardInterrupt only: after the end of the list, a \<open>break\<close> or an interrupt the
  registry is uploaded; another exception leaves \<open>main\<close> before that upload.
\<close>

definition locations_main ::
  "env \<Rightarrow> string list list \<Rightarrow> string list list \<Rightarrow> py_error option \<times> state" where
  "locations_main e venue_list csv =
     (case read_csv_to_dict csv of
        Inl err \<Rightarrow> (Some err, initial_state e [])
      | Inr d \<Rightarrow>
          (case venue_loop e venue_list (initial_state e d) of
             (Raised err, s) \<Rightarrow> (Some err, s)
           | (other, s) \<Rightarrow> (None, backup_data s)))"

section \<open>clean-and-backup-untappd-data: the premium pass\<close>

definition safe_dict :: "pyval \<Rightarrow> string \<Rightarrow> py_error + pyval" where
  "safe_dict dict_name key =
     (case getitem dict_name key of
        Inl err \<Rightarrow> if err = KeyError then Inr (PStr ''Unavailable'') else Inl err
      | Inr v \<Rightarrow> Inr v)"

definition unavailable_row :: "pyval \<Rightarrow> pyval \<Rightarrow> pyval list" where
  "unavailable_row c0 c1 =
     [PStr ''Unavailable'', c0, c1, PStr ''Unavailable'', PStr ''Unavailable'']"

definition details_categories :: "(pyval \<Rightarrow> string) \<Rightarrow> pyval \<Rightarrow> py_error + pyval" where
  "details_categories str categories =
     (if truthy categories
      then (case py_iter categories of
              Inl err \<Rightarrow> Inl err
            | Inr cs \<Rightarrow>
                (case map_err (\<lambda>category. safe_dict category ''name'') cs of
                   Inl err \<Rightarrow> Inl err
                 | Inr category_list \<Rightarrow> Inr (PStr (py_join '', '' (map str category_list)))))
      else Inr (PStr ''Uncategorized''))"

text \<open>The row that the premium \<open>search_foursquare\<close> builds once it has \<open>location\<close> and
  \<open>categories\<close>: every key that is missing there becomes \<open>'Unavailable'\<close>.\<close>

definition details_row :: "(pyval \<Rightarrow> string) \<Rightarrow> pyval \<Rightarrow> pyval \<Rightarrow> py_error + pyval list" where
  "details_row str venue categories =
     (case safe_dict venue ''formattedAddress'' of
        Inl err \<Rightarrow> Inl err
      | Inr a \<Rightarrow>
     (case safe_dict venue ''lat'' of
        Inl err \<Rightarrow> Inl err
      | Inr lat \<Rightarrow>
     (case safe_dict venue ''lng'' of
        Inl err \<Rightarrow> Inl err
      | Inr lng \<Rightarrow>
     (case details_categories str categories of
        Inl err \<Rightarrow> Inl err
      | Inr cats \<Rightarrow>
     (case safe_dict venue ''country'' of
        Inl err \<Rightarrow> Inl err
      | Inr country \<Rightarrow>
          (let address_list = (case a of PList xs \<Rightarrow> xs | _ \<Rightarrow> [a]);
               in_us = (if country = PStr ''Unavailable'' then PStr ''Unavailable''
                        else PBool (country = PStr ''United States''))
           in Inr [PStr (py_join '', '' (map str address_list)), lat, lng, cats, in_us]))))))"

text \<open>\<open>data['response']['venue'][key]\<close>.\<close>

definition venue_field :: "pyval \<Rightarrow> string \<Rightarrow> py_error + pyval" where
  "venue_field data key =
     (case getitem data ''response'' of
        Inl err \<Rightarrow> Inl err
      | Inr response \<Rightarrow>
          (case getitem response ''venue'' of
             Inl err \<Rightarrow> Inl err
           | Inr v \<Rightarrow> getitem v key))"

text \<open>What the premium \<open>search_foursquare\<close> does with the response: 400 is the id that no
  longer exists, another status but 200 is "try again later", and a KeyError on the way
  to \<open>location\<close> or \<open>categories\<close> is caught.\<close>

definition details_response ::
  "(pyval \<Rightarrow> string) \<Rightarrow> pyval \<Rightarrow> pyval \<Rightarrow> int \<times> pyval option \<Rightarrow> py_error + pyval list" where
  "details_response str c0 c1 query =
     (if fst query = 400 then Inr (unavailable_row c0 c1)
      else if fst query \<noteq> 200
        then Inr [PStr ''Missing'', c0, c1, PStr ''Missing'', PStr ''Missing'']
      else case snd query of
             None \<Rightarrow> Inl ValueError
           | Some data \<Rightarrow>
        (case venue_field data ''location'' of
           Inl err \<Rightarrow> if err = KeyError then Inr (unavailable_row c0 c1) else Inl err
         | Inr venue \<Rightarrow>
        (case venue_field data ''categories'' of
           Inl err \<Rightarrow> if err = KeyError then Inr (unavailable_row c0 c1) else Inl err
         | Inr categories \<Rightarrow> details_row str venue categories)))"

text \<open>The premium \<open>search_foursquare\<close>: the request is logged by the venue id it asks for.\<close>

definition clean_search_foursquare ::
  "env \<Rightarrow> pyval \<Rightarrow> pyval \<Rightarrow> pyval \<Rightarrow> string list \<Rightarrow> (py_error + pyval list) \<times> string list" where
  "clean_search_foursquare e foursquare_url c0 c1 requests =
     (case foursquare_url of
        PStr u \<Rightarrow>
          (details_response (py_str e) c0 c1 (foursquare_get e (length requests)),
           requests @ [after_last CHR ''/'' u])
      | _ \<Rightarrow> (Inl AttributeError, requests))"

text \<open>
  The body of the loop of \<open>main\<close> for one record: the row after it and the requests made
  so far. The test after the search reads \<open>venue_dict[venue][3]\<close>.
\<close>

definition clean_step ::
  "env \<Rightarrow> pyval list \<Rightarrow> string list \<Rightarrow> flow \<times> pyval list \<times> string list" where
  "clean_step e venue_data requests =
     (case py_index venue_data 1 of
        Inl err \<Rightarrow> (Raised err, venue_data, requests)
      | Inr foursquare_url \<Rightarrow>
     (case py_index venue_data 3 of
        Inl err \<Rightarrow> (Raised err, venue_data, requests)
      | Inr c0 \<Rightarrow>
     (case py_index venue_data 4 of
        Inl err \<Rightarrow> (Raised err, venue_data, requests)
      | Inr c1 \<Rightarrow>
          if PStr ''Missing'' \<notin> set venue_data \<or> foursquare_url = PStr ''Missing''
          then (Continue, venue_data, requests)
          else (case clean_search_foursquare e foursquare_url c0 c1 requests of
                  (Inl err, requests') \<Rightarrow> (Raised err, venue_data, requests')
                | (Inr found, requests') \<Rightarrow>
                    (let row' = set_last5 venue_data found
                     in case py_index row' 3 of
                          Inl err \<Rightarrow> (Raised err, row', requests')
                        | Inr c \<Rightarrow>
                            if c = PStr ''Missing'' then (Break, row', requests')
                            else (Continue, row', requests'))))))"

text \<open>\<open>for venue, venue_data in venue_dict.items()\<close>: the rows are changed in place, and
  the rows after a \<open>break\<close> stay as they are.\<close>

fun clean_loop ::
  "env \<Rightarrow> (string \<times> pyval list) list \<Rightarrow> string list
     \<Rightarrow> flow \<times> (string \<times> pyval list) list \<times> string list" where
  "clean_loop e [] requests = (Continue, [], requests)"
| "clean_loop e ((venue, venue_data) # rest) requests =
     (case clean_step e venue_data requests of
        (Continue, row', requests') \<Rightarrow>
          (case clean_loop e rest requests' of
             (fl, rest', requests'') \<Rightarrow> (fl, (venue, row') # rest', requests''))
      | (fl, row', requests') \<Rightarrow> (fl, (venue, row') # rest, requests'))"

text \<open>
  \<open>main\<close> up to the upload of the registry: the error of a run that raised, the rows
  uploaded by one that did not, and the requests made.
\<close>

definition clean_main ::
  "env \<Rightarrow> string list list \<Rightarrow> py_error option \<times> pyval list list option \<times> string list" where
  "clean_main e csv =
     (case read_csv_to_dict csv of
        Inl err \<Rightarrow> (Some err, None, [])
      | Inr d \<Rightarrow>
          (case clean_loop e d [] of
             (Raised err, d', requests) \<Rightarrow> (Some err, None, requests)
           | (fl, d', requests) \<Rightarrow> (None, Some (write_dict_to_csv d'), requests)))"

subsection \<open>The states of a field\<close>

text \<open>
  The sentinels of a cell, as the comments of the two scripts give them: the empty string
  is "try again later"; \<open>'Missing'\<close> is written by the enrichment run with "do not try
  again", and \<open>'Unavailable'\<close> by the premium pass for data that does not exist; any other
  cell holds a value.
\<close>

datatype field_state = Unresolved | PermanentlyUnavailable | Resolved

definition field_state :: "pyval \<Rightarrow> field_state" where
  "field_state c =
     (if c = PStr [] then Unresolved
      else if c = PStr ''Missing'' \<or> c = PStr ''Unavailable'' then PermanentlyUnavailable
      else Resolved)"

text \<open>A record that the enrichment run has nothing left to do for: its Untappd url is
  not empty and none of its cells is.\<close>

definition settled :: "pyval list \<Rightarrow> bool" where
  "settled row = (row \<noteq> [] \<and> truthy (hd row) \<and> PStr [] \<notin> set row)"

section \<open>parse-untappd-rss-feed-data: the parse run\<close>













section \<open>Example inputs\<close>

text \<open>A feed entry of brewery 68 with the given checkin number.\<close>

definition checkin :: "string \<Rightarrow> post" where
  "checkin n =
     \<lparr>entry_id = ''https://untappd.com/user/alice/checkin/'' @ n,
      title_base = ''https://untappd.com/rss/brewery/68''\<rparr>"

text \<open>The container and a link of a checkin page, and those of a venue page.\<close>

definition location_p :: token where
  "location_p = StartTag ''p'' [(''class'', Some ''location'')]"

definition venue_a :: token where
  "venue_a = StartTag ''a'' [(''href'', Some ''/v/the-brewery/1'')]"

definition social_div :: token where
  "social_div = StartTag ''div'' [(''class'', Some ''venue-social'')]"

definition foursquare_a :: token where
  "foursquare_a =
     StartTag ''a'' [(''class'', Some ''fs track-click''),
                     (''href'', Some ''https://foursquare.com/v/a1?ref=untappd'')]"

text \<open>Two pages whose only links stand outside the container: before it opens and
  after it has closed.\<close>

definition outside_links :: "token list" where
  "outside_links = [venue_a, location_p, EndTag ''p'', venue_a]"

definition outside_venue_links :: "token list" where
  "outside_venue_links = [foursquare_a, social_div, EndTag ''div'', foursquare_a]"

text \<open>
  The builtin \<open>str\<close> on the values that the examples pass to it, which are strings.
\<close>

definition str_text :: "pyval \<Rightarrow> string" where
  "str_text v = (case v of PStr s \<Rightarrow> s | _ \<Rightarrow> [])"

text \<open>A venue of \<open>venue_list.csv\<close>, and three states of its record: after Untappd was
  read, after Foursquare found no match, and complete.\<close>

definition the_brewery :: "string list" where
  "the_brewery = [''The Brewery'', ''https://untappd.com/user/alice/checkin/1'']"

definition row_pending :: "string list" where
  "row_pending =
     [''https://untappd.com/v/the-brewery/1'', ''https://foursquare.com/v/a1'',
      [], ''32.7'', ''-117.1'', [], []]"

definition row_missing :: "string list" where
  "row_missing =
     [''https://untappd.com/v/the-brewery/1'', ''https://foursquare.com/v/a1'',
      ''Missing'', ''32.7'', ''-117.1'', ''Missing'', ''Missing'']"

definition row_complete :: "string list" where
  "row_complete =
     [''https://untappd.com/v/the-brewery/1'', ''https://foursquare.com/v/a1'',
      ''1 Main St, San Diego'', ''33'', ''-117'', ''Brewery'', ''True'']"

text \<open>A second venue.\<close>

definition taproom :: "string list" where
  "taproom = [''Taproom'', ''https://untappd.com/user/bob/checkin/2'']"

definition taproom_missing :: "string list" where
  "taproom_missing =
     [''https://untappd.com/v/taproom/2'', ''https://foursquare.com/v/b2'',
      ''Missing'', ''40.1'', ''-75.2'', ''Missing'', ''Missing'']"

text \<open>The \<open>location\<close> and \<open>categories\<close> of the venue \<open>a1\<close>, the body of a search that
  finds it, and the body of a details request whose \<open>location\<close> has the country only.\<close>

definition a1_location :: pyval where
  "a1_location =
     PDict [(''formattedAddress'', PList [PStr ''1 Main St'', PStr ''San Diego'']),
            (''lat'', PNum 33), (''lng'', PNum (- 117)),
            (''country'', PStr ''United States'')]"

definition a1_categories :: pyval where
  "a1_categories = PList [PDict [(''name'', PStr ''Brewery'')]]"

definition search_body :: pyval where
  "search_body =
     PDict [(''response'',
       PDict [(''venues'',
         PList [PDict [(''id'', PStr ''a1''), (''location'', a1_location),
                       (''categories'', a1_categories)]])])]"


text \<open>The checkin page and the venue page of the venue, as Untappd serves them.\<close>

definition untappd_pages :: "nat \<Rightarrow> int \<times> token list" where
  "untappd_pages n =
     (if even n then (200, [location_p, venue_a, EndTag ''a'', EndTag ''p''])
      else (200, [StartTag ''meta'' [(''property'', Some ''place:location:latitude''),
                                     (''content'', Some ''32.7'')],
                  StartTag ''meta'' [(''property'', Some ''place:location:longitude''),
                                     (''content'', Some ''-117.1'')],
                  social_div, foursquare_a, EndTag ''a'', EndTag ''div'']))"

text \<open>A run in which every request succeeds and nothing interrupts, and the same run
  with Foursquare answering 500 to every request.\<close>

definition env_ok :: env where
  "env_ok =
     \<lparr>untappd_get = untappd_pages, foursquare_get = (\<lambda>n. (200, Some search_body)),
      clock = (\<lambda>n. 0), interrupt = (\<lambda>n. False), py_str = str_text\<rparr>"

definition env_500 :: env where
  "env_500 = env_ok\<lparr>foursquare_get := (\<lambda>n. (500, None))\<rparr>"

text \<open>The run that an operator stops when its second iteration starts: the polls of
  the first iteration are those at its start and at its two pauses.\<close>

definition env_stop :: env where
  "env_stop = env_ok\<lparr>interrupt := (\<lambda>n. n = 3)\<rparr>"

text \<open>A registry with one complete record, of a venue that the list does not mention.\<close>

definition old_registry :: "string list list" where
  "old_registry = [''Old Town'' # row_complete]"










section \<open>C4: the example titles\<close>

text \<open>
  C4 (as stated, refuted): on the three titles of the specification the parser does not
  give the results the specification lists. It drops the first word after
  \<open>' is drinking '\<close> (the article of a real feed title, "is drinking a ..."), so the first
  title yields the beverage "at Sea Stout", and the other two, where a single word
  follows, raise IndexError.
\<close>

theorem C4_spec_titles_counterexample:
  "parse_title ''alice is drinking Victory at Sea Stout at The Brewery''
     = Inr (''at Sea Stout'', ''The Brewery'')
   \<and> parse_title ''bob is drinking IPA at Taproom'' = Inl IndexError
   \<and> parse_title ''carol is drinking Pilsner'' = Inl IndexError"
  by code_simp

text \<open>
  C4 (amended): with the article that the parser expects before the beverage, the three
  examples parse as listed: the exception-list title splits at the second \<open>' at '\<close>, the
  other at the first, and a title without \<open>' at '\<close> has the empty venue.
\<close>

theorem C4_article_titles:
  "parse_title ''alice is drinking a Victory at Sea Stout at The Brewery''
     = Inr (''Victory at Sea Stout'', ''The Brewery'')
   \<and> parse_title ''bob is drinking an IPA at Taproom'' = Inr (''IPA'', ''Taproom'')
   \<and> parse_title ''carol is drinking a Pilsner'' = Inr (''Pilsner'', [])"
  by code_simp


section \<open>C5: the ingestion watermark\<close>

lemma write_new_posts_puts:
  "write_new_posts f l ps (mr, b) = (r, mr', b') \<Longrightarrow>
     mr \<le> mr' \<and> last_update_id b' = last_update_id b
     \<and> (\<exists>new. post_puts b' = post_puts b @ new
            \<and> (\<forall>x \<in> set new. l < fst (snd x) \<and> fst (snd x) \<le> mr'))"
proof (induction ps arbitrary: mr b)
  case Nil
  then show ?case by simp
next
  case (Cons p ps)
  show ?case
  proof (cases "post_id f p")
    case (Inl e)
    with Cons.prems show ?thesis by simp
  next
    case (Inr pid)
    show ?thesis
    proof (cases "pid > l")
      case True
      with Inr Cons.prems
      have run: "write_new_posts f l ps (max mr pid, write_post_to_s3 b p pid) = (r, mr', b')"
        by simp
      from Cons.IH [OF run] obtain new where
        le: "max mr pid \<le> mr'" and
        wm: "last_update_id b' = last_update_id (write_post_to_s3 b p pid)" and
        puts: "post_puts b' = post_puts (write_post_to_s3 b p pid) @ new" and
        bound: "\<forall>x \<in> set new. l < fst (snd x) \<and> fst (snd x) \<le> mr'"
        by blast
      let ?put = "(after_last CHR ''/'' (title_base p), pid, p)"
      have "post_puts b' = post_puts b @ (?put # new)"
        using puts by (simp add: write_post_to_s3_def)
      moreover have "\<forall>x \<in> set (?put # new). l < fst (snd x) \<and> fst (snd x) \<le> mr'"
        using bound True le by simp
      moreover have "mr \<le> mr'" using le by simp
      moreover have "last_update_id b' = last_update_id b"
        using wm by (simp add: write_post_to_s3_def)
      ultimately show ?thesis by blast
    next
      case False
      with Inr Cons.prems
      have run: "write_new_posts f l ps (mr, b) = (r, mr', b')" by simp
      from Cons.IH [OF run] show ?thesis .
    qed
  qed
qed

lemma write_new_posts_filter:
  "write_new_posts f l ps (mr, b) = (None, mr', b') \<Longrightarrow>
   map (post_id f) ps = map Inr ids \<Longrightarrow>
   written_ids b b' = filter (\<lambda>i. l < i) ids"
proof (induction ps arbitrary: mr b ids)
  case Nil
  then show ?case by (simp add: written_ids_def)
next
  case (Cons p ps)
  from Cons.prems(2) obtain i ids' where
    ids: "ids = i # ids'" and pi: "post_id f p = Inr i"
    and rest: "map (post_id f) ps = map Inr ids'"
    by (cases ids) auto
  show ?case
  proof (cases "i > l")
    case True
    with pi Cons.prems(1)
    have run: "write_new_posts f l ps (max mr i, write_post_to_s3 b p i) = (None, mr', b')"
      by simp
    from Cons.IH [OF run rest]
    have ih: "written_ids (write_post_to_s3 b p i) b' = filter (\<lambda>i. l < i) ids'" .
    from write_new_posts_puts [OF run] obtain new where
      puts: "post_puts b' = post_puts (write_post_to_s3 b p i) @ new" by blast
    have "written_ids b b' = i # written_ids (write_post_to_s3 b p i) b'"
      using puts by (simp add: written_ids_def write_post_to_s3_def)
    with ih ids True show ?thesis by simp
  next
    case False
    with pi Cons.prems(1)
    have run: "write_new_posts f l ps (mr, b) = (None, mr', b')" by simp
    from Cons.IH [OF run rest] ids False show ?thesis by simp
  qed
qed

lemma update_main_written:
  assumes "update_main f posts b = (r, b')"
  shows "last_update_id b \<le> last_update_id b'
         \<and> (\<forall>i \<in> set (written_ids b b'). last_update_id b < i)
         \<and> (r = None \<longrightarrow> (\<forall>i \<in> set (written_ids b b'). i \<le> last_update_id b'))"
proof -
  obtain r0 mr b0 where
    loop: "write_new_posts f (last_update_id b) posts (last_update_id b, b) = (r0, mr, b0)"
    by (metis prod_cases3)
  from write_new_posts_puts [OF loop] obtain new where
    le: "last_update_id b \<le> mr" and wm: "last_update_id b0 = last_update_id b" and
    puts: "post_puts b0 = post_puts b @ new" and
    bound: "\<forall>x \<in> set new. last_update_id b < fst (snd x) \<and> fst (snd x) \<le> mr"
    by blast
  have w0: "written_ids b b0 = map (\<lambda>x. fst (snd x)) new"
    using puts by (simp add: written_ids_def case_prod_unfold)
  show ?thesis
  proof (cases r0)
    case None
    with loop assms have b': "b' = b0\<lparr>last_update_id := mr\<rparr>" and "r = None"
      by (auto simp: update_main_def)
    then have "written_ids b b' = written_ids b b0" by (simp add: written_ids_def)
    with w0 bound le b' show ?thesis by auto
  next
    case (Some e)
    with loop assms have b': "b' = b0" and "r = Some e"
      by (auto simp: update_main_def)
    with w0 bound wm show ?thesis by auto
  qed
qed

text \<open>
  C5 (amended): a run writes a delivered post iff its id exceeds the watermark that was
  stored when the run started: the ids written by a run that did not raise are the
  delivered ids above that watermark, in delivery order and with their repetitions (a
  post delivered twice in one run is written twice, onto one key). Across runs an id is
  written at most once: no id written by a run that did not raise is written by the next
  run. The stored watermark never decreases.
\<close>

theorem C5_watermark:
  "update_main to_int posts b = (r, b') \<Longrightarrow>
     last_update_id b \<le> last_update_id b'
     \<and> (r = None \<and> map (post_id to_int) posts = map Inr ids
            \<longrightarrow> written_ids b b' = filter (\<lambda>i. last_update_id b < i) ids)
     \<and> (r = None \<and> update_main to_int later_posts b' = (rn, bn)
            \<longrightarrow> set (written_ids b' bn) \<inter> set (written_ids b b') = {})"
proof (intro conjI impI)
  assume run: "update_main to_int posts b = (r, b')"
  from update_main_written [OF run] show "last_update_id b \<le> last_update_id b'" by blast
next
  assume run: "update_main to_int posts b = (r, b')"
    and h: "r = None \<and> map (post_id to_int) posts = map Inr ids"
  obtain r0 mr b0 where
    loop: "write_new_posts to_int (last_update_id b) posts (last_update_id b, b) = (r0, mr, b0)"
    by (metis prod_cases3)
  with run h have r0: "r0 = None" and b': "b' = b0\<lparr>last_update_id := mr\<rparr>"
    by (auto simp: update_main_def split: option.splits)
  from write_new_posts_filter [OF loop [unfolded r0]] h
  have "written_ids b b0 = filter (\<lambda>i. last_update_id b < i) ids" by blast
  moreover have "written_ids b b' = written_ids b b0"
    using b' by (simp add: written_ids_def)
  ultimately show "written_ids b b' = filter (\<lambda>i. last_update_id b < i) ids" by simp
next
  assume run: "update_main to_int posts b = (r, b')"
    and h: "r = None \<and> update_main to_int later_posts b' = (rn, bn)"
  from update_main_written [OF run] h
  have first: "\<forall>i \<in> set (written_ids b b'). i \<le> last_update_id b'" by blast
  from h have run2: "update_main to_int later_posts b' = (rn, bn)" by blast
  from update_main_written [OF run2]
  have second: "\<forall>i \<in> set (written_ids b' bn). last_update_id b' < i" by blast
  from first second show "set (written_ids b' bn) \<inter> set (written_ids b b') = {}"
    by fastforce
qed

theorem C5_watermark_witness:
  "update_main decimal_int [checkin ''7'', checkin ''5'', checkin ''3'']
       \<lparr>last_update_id = 4, post_puts = []\<rparr>
     = (None, \<lparr>last_update_id = 7,
               post_puts = [(''68'', 7, checkin ''7''), (''68'', 5, checkin ''5'')]\<rparr>)
   \<and> (4::int) \<le> 7
   \<and> written_ids \<lparr>last_update_id = 4, post_puts = []\<rparr>
         \<lparr>last_update_id = 7,
          post_puts = [(''68'', 7, checkin ''7''), (''68'', 5, checkin ''5'')]\<rparr>
       = filter (\<lambda>i. 4 < i) [7, 5, 3]
   \<and> set (written_ids
             \<lparr>last_update_id = 7,
              post_puts = [(''68'', 7, checkin ''7''), (''68'', 5, checkin ''5'')]\<rparr>
             \<lparr>last_update_id = 8,
              post_puts = [(''68'', 7, checkin ''7''), (''68'', 5, checkin ''5''),
                           (''68'', 8, checkin ''8'')]\<rparr>)
       \<inter> set (written_ids \<lparr>last_update_id = 4, post_puts = []\<rparr>
               \<lparr>last_update_id = 7,
                post_puts = [(''68'', 7, checkin ''7''), (''68'', 5, checkin ''5'')]\<rparr>)
       = {}"
proof -
  let ?b0 = "\<lparr>last_update_id = 4, post_puts = []\<rparr>"
  let ?b1 = "\<lparr>last_update_id = 7,
              post_puts = [(''68'', 7, checkin ''7''), (''68'', 5, checkin ''5'')]\<rparr>"
  let ?b2 = "\<lparr>last_update_id = 8,
              post_puts = [(''68'', 7, checkin ''7''), (''68'', 5, checkin ''5''),
                           (''68'', 8, checkin ''8'')]\<rparr>"
  have run1: "update_main decimal_int [checkin ''7'', checkin ''5'', checkin ''3''] ?b0
                = (None, ?b1)"
    by code_simp
  have run2: "update_main decimal_int [checkin ''8'', checkin ''7'', checkin ''5''] ?b1
                = (None, ?b2)"
    by code_simp
  have ids: "map (post_id decimal_int) [checkin ''7'', checkin ''5'', checkin ''3'']
               = map Inr [7, 5, 3]"
    by code_simp
  note wm = C5_watermark [OF run1, where ids = "[7, 5, 3]" and rn = None and bn = ?b2
      and later_posts = "[checkin ''8'', checkin ''7'', checkin ''5'']"]
  from wm ids have written: "written_ids ?b0 ?b1 = filter (\<lambda>i. 4 < i) [7, 5, 3]"
    by simp
  from wm run2 have apart: "set (written_ids ?b1 ?b2) \<inter> set (written_ids ?b0 ?b1) = {}"
    by simp
  from run1 written apart show ?thesis by simp
qed

text \<open>
  C5 (as stated, refuted): a post delivered twice within one run is written twice. Both
  deliveries are compared with the watermark of the start of the run.
\<close>

theorem C5_duplicate_counterexample:
  "update_main decimal_int [checkin ''5'', checkin ''5''] \<lparr>last_update_id = 0, post_puts = []\<rparr>
     = (None, \<lparr>last_update_id = 5,
               post_puts = [(''68'', 5, checkin ''5''), (''68'', 5, checkin ''5'')]\<rparr>)"
  by code_simp

section \<open>C8: the nested-link rule of the tag scanners\<close>

lemma checkin_feed_snoc:
  "checkin_feed st (ts @ [t]) = checkin_handle (checkin_feed st ts) t"
  by (simp add: checkin_feed_def)

lemma checkin_handle_prefix: "prefix (url st) (url (checkin_handle st t))"
  by (cases t) (auto simp: checkin_starttag_def checkin_endtag_def split: option.splits)

lemma checkin_feed_prefix: "prefix (url st) (url (checkin_feed st ts))"
proof (induction ts rule: rev_induct)
  case Nil
  then show ?case by (simp add: checkin_feed_def)
next
  case (snoc t ts)
  have "prefix (url (checkin_feed st ts)) (url (checkin_feed st (ts @ [t])))"
    unfolding checkin_feed_snoc by (rule checkin_handle_prefix)
  with snoc show ?case by (rule prefix_order.trans)
qed

lemma checkin_feed_append:
  "checkin_feed st (ts @ us) = checkin_feed (checkin_feed st ts) us"
  by (simp add: checkin_feed_def)

lemma checkin_feed_no_link:
  "\<forall>attributes. StartTag ''a'' attributes \<notin> set ts \<Longrightarrow> url (checkin_feed st ts) = url st"
proof (induction ts rule: rev_induct)
  case Nil
  then show ?case by (simp add: checkin_feed_def)
next
  case (snoc t ts)
  then have ih: "url (checkin_feed st ts) = url st" by simp
  from snoc.prems have "\<forall>attributes. t \<noteq> StartTag ''a'' attributes" by auto
  then have "url (checkin_handle (checkin_feed st ts) t) = url (checkin_feed st ts)"
    by (cases t) (auto simp: checkin_starttag_def checkin_endtag_def)
  with ih show ?case by (simp add: checkin_feed_snoc)
qed

lemma venue_feed_snoc:
  "venue_feed st (ts @ [t]) =
     (case venue_feed st ts of Inl e \<Rightarrow> Inl e | Inr st1 \<Rightarrow> venue_handle st1 t)"
  by (induction ts arbitrary: st) (auto split: sum.splits)

lemma venue_feed_append:
  "venue_feed st (ts @ us) =
     (case venue_feed st ts of Inl e \<Rightarrow> Inl e | Inr st1 \<Rightarrow> venue_feed st1 us)"
  by (induction ts arbitrary: st) (auto split: sum.splits)

lemma venue_handle_prefix:
  "venue_handle st t = Inr st' \<Longrightarrow> prefix (urls st) (urls st')"
  by (cases t)
     (auto simp: venue_starttag_def venue_endtag_def Let_def split: if_splits option.splits)

lemma venue_feed_prefix:
  "venue_feed st ts = Inr st' \<Longrightarrow> prefix (urls st) (urls st')"
proof (induction ts arbitrary: st)
  case Nil
  then show ?case by simp
next
  case (Cons t ts)
  then obtain st1 where h: "venue_handle st t = Inr st1" and r: "venue_feed st1 ts = Inr st'"
    by (auto split: sum.splits)
  from venue_handle_prefix [OF h] Cons.IH [OF r] show ?case
    by (rule prefix_order.trans)
qed

lemma venue_feed_no_link:
  "venue_feed st ts = Inr st' \<Longrightarrow> \<forall>attributes. StartTag ''a'' attributes \<notin> set ts
     \<Longrightarrow> urls st' = urls st"
proof (induction ts arbitrary: st)
  case Nil
  then show ?case by simp
next
  case (Cons t ts)
  then obtain st1 where h: "venue_handle st t = Inr st1" and r: "venue_feed st1 ts = Inr st'"
    by (auto split: sum.splits)
  from Cons.prems have "\<forall>attributes. t \<noteq> StartTag ''a'' attributes" by auto
  with h have "urls st1 = urls st"
    by (cases t)
       (auto simp: venue_starttag_def venue_endtag_def Let_def split: if_splits option.splits)
  moreover from Cons.IH [OF r] Cons.prems(2) have "urls st' = urls st1" by simp
  ultimately show ?case by simp
qed

lemma checkin_handle_off: "\<not> found_p st \<Longrightarrow> url (checkin_handle st t) = url st"
  by (cases t) (auto simp: checkin_starttag_def checkin_endtag_def)

lemma checkin_handle_plain: "\<not> checkin_link t \<Longrightarrow> url (checkin_handle st t) = url st"
  by (cases t)
     (auto simp: checkin_link_def checkin_starttag_def checkin_endtag_def split: option.splits)

lemma checkin_handle_stays_off:
  "\<not> found_p st \<Longrightarrow> \<not> checkin_container t \<Longrightarrow> \<not> found_p (checkin_handle st t)"
  by (cases t) (auto simp: checkin_container_def checkin_starttag_def checkin_endtag_def)

lemma checkin_feed_absent:
  "\<forall>k < length ts. checkin_link (ts ! k) \<longrightarrow> \<not> found_p (checkin_feed st (take k ts))
     \<Longrightarrow> url (checkin_feed st ts) = url st"
proof (induction ts rule: rev_induct)
  case Nil
  then show ?case by (simp add: checkin_feed_def)
next
  case (snoc t ts)
  have "\<forall>k < length ts. checkin_link (ts ! k) \<longrightarrow> \<not> found_p (checkin_feed st (take k ts))"
  proof (intro allI impI)
    fix k
    assume k: "k < length ts" and l: "checkin_link (ts ! k)"
    from snoc.prems k have
      "checkin_link ((ts @ [t]) ! k) \<longrightarrow> \<not> found_p (checkin_feed st (take k (ts @ [t])))"
      by simp
    with k l show "\<not> found_p (checkin_feed st (take k ts))" by (simp add: nth_append)
  qed
  with snoc.IH have ih: "url (checkin_feed st ts) = url st" by simp
  from snoc.prems have last: "checkin_link t \<longrightarrow> \<not> found_p (checkin_feed st ts)"
    by (auto dest: spec [of _ "length ts"])
  have "url (checkin_handle (checkin_feed st ts) t) = url (checkin_feed st ts)"
  proof (cases "checkin_link t")
    case True
    with last show ?thesis by (simp add: checkin_handle_off)
  next
    case False
    then show ?thesis by (rule checkin_handle_plain)
  qed
  with ih show ?case by (simp add: checkin_feed_snoc)
qed

lemma venue_handle_off:
  "\<not> found_div st \<Longrightarrow> venue_handle st t = Inr st' \<Longrightarrow> urls st' = urls st"
  by (cases t)
     (auto simp: venue_starttag_def venue_endtag_def Let_def split: if_splits option.splits)

lemma venue_handle_plain:
  "\<not> venue_link t \<Longrightarrow> venue_handle st t = Inr st' \<Longrightarrow> urls st' = urls st"
  by (cases t)
     (auto simp: venue_link_def venue_starttag_def venue_endtag_def Let_def
           split: if_splits option.splits)

lemma venue_handle_stays_off:
  "\<not> found_div st \<Longrightarrow> \<not> venue_container t \<Longrightarrow> venue_handle st t = Inr st'
     \<Longrightarrow> \<not> found_div st'"
  by (cases t)
     (auto simp: venue_container_def venue_starttag_def venue_endtag_def Let_def
           split: if_splits option.splits)

lemma venue_feed_absent:
  "venue_feed st ts = Inr st'
     \<Longrightarrow> \<forall>k < length ts. venue_link (ts ! k)
            \<longrightarrow> (\<exists>sk. venue_feed st (take k ts) = Inr sk \<and> \<not> found_div sk)
     \<Longrightarrow> urls st' = urls st"
proof (induction ts arbitrary: st' rule: rev_induct)
  case Nil
  then show ?case by simp
next
  case (snoc t ts)
  from snoc.prems(1) obtain st1 where
    before: "venue_feed st ts = Inr st1" and step: "venue_handle st1 t = Inr st'"
    by (auto simp: venue_feed_snoc split: sum.splits)
  have "\<forall>k < length ts. venue_link (ts ! k)
            \<longrightarrow> (\<exists>sk. venue_feed st (take k ts) = Inr sk \<and> \<not> found_div sk)"
  proof (intro allI impI)
    fix k
    assume k: "k < length ts" and l: "venue_link (ts ! k)"
    from snoc.prems(2) k have
      "venue_link ((ts @ [t]) ! k)
         \<longrightarrow> (\<exists>sk. venue_feed st (take k (ts @ [t])) = Inr sk \<and> \<not> found_div sk)"
      by simp
    with k l show "\<exists>sk. venue_feed st (take k ts) = Inr sk \<and> \<not> found_div sk"
      by (simp add: nth_append)
  qed
  from snoc.IH [OF before this] have ih: "urls st1 = urls st" .
  from snoc.prems(2) before have last: "venue_link t \<longrightarrow> \<not> found_div st1"
    by (auto dest: spec [of _ "length ts"])
  have "urls st' = urls st1"
  proof (cases "venue_link t")
    case True
    with last step show ?thesis by (simp add: venue_handle_off)
  next
    case False
    from venue_handle_plain [OF this step] show ?thesis .
  qed
  with ih show ?case by simp
qed

text \<open>
  C8 (amended): in both scanners the start tag of the qualifying container (\<open>p\<close> with
  class \<open>location\<close>, \<open>div\<close> with class \<open>venue-social\<close>) sets the found flag and no other
  token sets it; every end tag with the container's tag name clears it, whether or not it
  closes the container, and no other token clears it. A qualifying link met while the
  flag is set has its href appended to the result; a link met while the flag is clear,
  and a token that is not a qualifying link, leave the result as it is; so the hrefs
  stand in document order. Absent matches yield the empty result: when every qualifying
  link of the page is met with the flag clear, the result is empty. The checkin scanner
  is total; for the venue scanner this is stated of the scans that end without an
  exception.
\<close>

theorem C8_nested_link_scanners:
  "(\<not> found_p (checkin_feed checkin_init off)
      \<and> list_ex (\<lambda>(name, v). name = ''class'' \<and> v = Some ''location'') container
      \<longrightarrow> found_p (checkin_feed checkin_init (off @ [StartTag ''p'' container])))
   \<and> \<not> found_p (checkin_feed checkin_init (ts @ [EndTag ''p'']))
   \<and> (found_p (checkin_feed checkin_init on) \<and> t \<noteq> EndTag ''p''
      \<longrightarrow> found_p (checkin_feed checkin_init (on @ [t])))
   \<and> (found_p (checkin_feed checkin_init on)
      \<and> find (\<lambda>(name, v). name = ''href'') link = Some (n, h)
      \<longrightarrow> url (checkin_feed checkin_init (on @ [StartTag ''a'' link]))
            = url (checkin_feed checkin_init on) @ [h])
   \<and> prefix (url (checkin_feed checkin_init ts)) (url (checkin_feed checkin_init (ts @ us)))
   \<and> ((\<forall>attributes. StartTag ''a'' attributes \<notin> set nolink)
      \<longrightarrow> url (checkin_feed checkin_init nolink) = [])
   \<and> (venue_feed venue_init voff = Inr st0 \<and> \<not> found_div st0
      \<and> attributes_dict vcontainer ''class'' = Some (Some ''venue-social'')
      \<longrightarrow> venue_feed venue_init (voff @ [StartTag ''div'' vcontainer])
            = Inr (st0\<lparr>found_div := True\<rparr>))
   \<and> (venue_feed venue_init von = Inr st1
      \<longrightarrow> venue_feed venue_init (von @ [EndTag ''div'']) = Inr (st1\<lparr>found_div := False\<rparr>))
   \<and> (venue_feed venue_init von = Inr st1 \<and> found_div st1 \<and> vt \<noteq> EndTag ''div''
      \<and> venue_feed venue_init (von @ [vt]) = Inr st2
      \<longrightarrow> found_div st2)
   \<and> (venue_feed venue_init von = Inr st1 \<and> found_div st1
      \<and> attributes_dict vlink ''class'' = Some (Some ''fs track-click'')
      \<and> attributes_dict vlink ''href'' = Some (Some vh)
      \<longrightarrow> venue_feed venue_init (von @ [StartTag ''a'' vlink])
            = Inr (st1\<lparr>urls := urls st1 @ [hd (py_split ''?'' vh)]\<rparr>))
   \<and> (venue_feed venue_init von = Inr st1 \<and> venue_feed venue_init (von @ vus) = Inr st3
      \<longrightarrow> prefix (urls st1) (urls st3))
   \<and> ((\<forall>attributes. StartTag ''a'' attributes \<notin> set vnolink)
      \<and> venue_feed venue_init vnolink = Inr st4
      \<longrightarrow> urls st4 = [])
   \<and> (\<not> found_p (checkin_feed checkin_init off)
      \<longrightarrow> url (checkin_feed checkin_init (off @ [stray])) = url (checkin_feed checkin_init off))
   \<and> (\<not> checkin_link plain
      \<longrightarrow> url (checkin_feed checkin_init (ts @ [plain])) = url (checkin_feed checkin_init ts))
   \<and> (\<not> found_p (checkin_feed checkin_init off) \<and> \<not> checkin_container stray
      \<longrightarrow> \<not> found_p (checkin_feed checkin_init (off @ [stray])))
   \<and> ((\<forall>k < length quiet. checkin_link (quiet ! k)
           \<longrightarrow> \<not> found_p (checkin_feed checkin_init (take k quiet)))
      \<longrightarrow> url (checkin_feed checkin_init quiet) = [])
   \<and> (venue_feed venue_init voff = Inr st0 \<and> \<not> found_div st0
      \<and> venue_feed venue_init (voff @ [vstray]) = Inr st5
      \<longrightarrow> urls st5 = urls st0)
   \<and> (venue_feed venue_init von = Inr st1 \<and> \<not> venue_link vplain
      \<and> venue_feed venue_init (von @ [vplain]) = Inr st6
      \<longrightarrow> urls st6 = urls st1)
   \<and> (venue_feed venue_init voff = Inr st0 \<and> \<not> found_div st0 \<and> \<not> venue_container vstray
      \<and> venue_feed venue_init (voff @ [vstray]) = Inr st5
      \<longrightarrow> \<not> found_div st5)
   \<and> (venue_feed venue_init vquiet = Inr st7
      \<and> (\<forall>k < length vquiet. venue_link (vquiet ! k)
            \<longrightarrow> (\<exists>sk. venue_feed venue_init (take k vquiet) = Inr sk \<and> \<not> found_div sk))
      \<longrightarrow> urls st7 = [])"
proof (intro conjI impI)
  assume "\<not> found_p (checkin_feed checkin_init off)
      \<and> list_ex (\<lambda>(name, v). name = ''class'' \<and> v = Some ''location'') container"
  then show "found_p (checkin_feed checkin_init (off @ [StartTag ''p'' container]))"
    by (simp add: checkin_feed_snoc checkin_starttag_def)
next
  show "\<not> found_p (checkin_feed checkin_init (ts @ [EndTag ''p'']))"
    by (simp add: checkin_feed_snoc checkin_endtag_def)
next
  assume "found_p (checkin_feed checkin_init on) \<and> t \<noteq> EndTag ''p''"
  then show "found_p (checkin_feed checkin_init (on @ [t]))"
    by (cases t)
       (auto simp: checkin_feed_snoc checkin_starttag_def checkin_endtag_def
             split: option.splits)
next
  assume "found_p (checkin_feed checkin_init on)
      \<and> find (\<lambda>(name, v). name = ''href'') link = Some (n, h)"
  then show "url (checkin_feed checkin_init (on @ [StartTag ''a'' link]))
            = url (checkin_feed checkin_init on) @ [h]"
    by (simp add: checkin_feed_snoc checkin_starttag_def)
next
  show "prefix (url (checkin_feed checkin_init ts)) (url (checkin_feed checkin_init (ts @ us)))"
    unfolding checkin_feed_append by (rule checkin_feed_prefix)
next
  assume "\<forall>attributes. StartTag ''a'' attributes \<notin> set nolink"
  from checkin_feed_no_link [OF this]
  show "url (checkin_feed checkin_init nolink) = []"
    by (simp add: checkin_init_def)
next
  assume "venue_feed venue_init voff = Inr st0 \<and> \<not> found_div st0
      \<and> attributes_dict vcontainer ''class'' = Some (Some ''venue-social'')"
  then show "venue_feed venue_init (voff @ [StartTag ''div'' vcontainer])
            = Inr (st0\<lparr>found_div := True\<rparr>)"
    by (simp add: venue_feed_snoc venue_starttag_def)
next
  assume "venue_feed venue_init von = Inr st1"
  then show "venue_feed venue_init (von @ [EndTag ''div'']) = Inr (st1\<lparr>found_div := False\<rparr>)"
    by (simp add: venue_feed_snoc venue_endtag_def)
next
  assume "venue_feed venue_init von = Inr st1 \<and> found_div st1 \<and> vt \<noteq> EndTag ''div''
      \<and> venue_feed venue_init (von @ [vt]) = Inr st2"
  then show "found_div st2"
    by (cases vt)
       (auto simp: venue_feed_snoc venue_starttag_def venue_endtag_def Let_def
             split: if_splits option.splits)
next
  assume "venue_feed venue_init von = Inr st1 \<and> found_div st1
      \<and> attributes_dict vlink ''class'' = Some (Some ''fs track-click'')
      \<and> attributes_dict vlink ''href'' = Some (Some vh)"
  then show "venue_feed venue_init (von @ [StartTag ''a'' vlink])
            = Inr (st1\<lparr>urls := urls st1 @ [hd (py_split ''?'' vh)]\<rparr>)"
    by (simp add: venue_feed_snoc venue_starttag_def)
next
  assume "venue_feed venue_init von = Inr st1 \<and> venue_feed venue_init (von @ vus) = Inr st3"
  then have "venue_feed st1 vus = Inr st3" by (auto simp: venue_feed_append)
  then show "prefix (urls st1) (urls st3)" by (rule venue_feed_prefix)
next
  assume h: "(\<forall>attributes. StartTag ''a'' attributes \<notin> set vnolink)
      \<and> venue_feed venue_init vnolink = Inr st4"
  then have "urls st4 = urls venue_init" using venue_feed_no_link by blast
  then show "urls st4 = []" by (simp add: venue_init_def)
next
  assume "\<not> found_p (checkin_feed checkin_init off)"
  then show "url (checkin_feed checkin_init (off @ [stray])) = url (checkin_feed checkin_init off)"
    by (simp add: checkin_feed_snoc checkin_handle_off)
next
  assume "\<not> checkin_link plain"
  then show "url (checkin_feed checkin_init (ts @ [plain])) = url (checkin_feed checkin_init ts)"
    by (simp add: checkin_feed_snoc checkin_handle_plain)
next
  assume "\<not> found_p (checkin_feed checkin_init off) \<and> \<not> checkin_container stray"
  then show "\<not> found_p (checkin_feed checkin_init (off @ [stray]))"
    by (simp add: checkin_feed_snoc checkin_handle_stays_off)
next
  assume "\<forall>k < length quiet. checkin_link (quiet ! k)
           \<longrightarrow> \<not> found_p (checkin_feed checkin_init (take k quiet))"
  from checkin_feed_absent [OF this] show "url (checkin_feed checkin_init quiet) = []"
    by (simp add: checkin_init_def)
next
  assume "venue_feed venue_init voff = Inr st0 \<and> \<not> found_div st0
      \<and> venue_feed venue_init (voff @ [vstray]) = Inr st5"
  then show "urls st5 = urls st0"
    by (auto simp: venue_feed_snoc dest: venue_handle_off)
next
  assume "venue_feed venue_init von = Inr st1 \<and> \<not> venue_link vplain
      \<and> venue_feed venue_init (von @ [vplain]) = Inr st6"
  then show "urls st6 = urls st1"
    by (auto simp: venue_feed_snoc dest: venue_handle_plain)
next
  assume "venue_feed venue_init voff = Inr st0 \<and> \<not> found_div st0 \<and> \<not> venue_container vstray
      \<and> venue_feed venue_init (voff @ [vstray]) = Inr st5"
  then show "\<not> found_div st5"
    by (auto simp: venue_feed_snoc dest: venue_handle_stays_off)
next
  assume h: "venue_feed venue_init vquiet = Inr st7
      \<and> (\<forall>k < length vquiet. venue_link (vquiet ! k)
            \<longrightarrow> (\<exists>sk. venue_feed venue_init (take k vquiet) = Inr sk \<and> \<not> found_div sk))"
  then have run: "venue_feed venue_init vquiet = Inr st7"
    and clear: "\<forall>k < length vquiet. venue_link (vquiet ! k)
            \<longrightarrow> (\<exists>sk. venue_feed venue_init (take k vquiet) = Inr sk \<and> \<not> found_div sk)"
    by simp_all
  from venue_feed_absent [OF run clear] show "urls st7 = []" by (simp add: venue_init_def)
qed

theorem C8_nested_link_scanners_witness:
  "found_p (checkin_feed checkin_init ([] @ [location_p]))
   \<and> \<not> found_p (checkin_feed checkin_init ([location_p] @ [EndTag ''p'']))
   \<and> found_p (checkin_feed checkin_init ([location_p] @ [Data ''at'']))
   \<and> url (checkin_feed checkin_init ([location_p] @ [venue_a]))
       = url (checkin_feed checkin_init [location_p]) @ [Some ''/v/the-brewery/1'']
   \<and> prefix (url (checkin_feed checkin_init [location_p]))
        (url (checkin_feed checkin_init ([location_p] @ [venue_a])))
   \<and> url (checkin_feed checkin_init [location_p, EndTag ''p'']) = []
   \<and> venue_feed venue_init ([] @ [social_div]) = Inr (venue_init\<lparr>found_div := True\<rparr>)
   \<and> venue_feed venue_init ([social_div] @ [EndTag ''div''])
       = Inr (venue_init\<lparr>found_div := True, found_div := False\<rparr>)
   \<and> found_div (venue_init\<lparr>found_div := True\<rparr>)
   \<and> venue_feed venue_init ([social_div] @ [foursquare_a])
       = Inr (venue_init\<lparr>found_div := True, urls := [''https://foursquare.com/v/a1'']\<rparr>)
   \<and> prefix (urls (venue_init\<lparr>found_div := True\<rparr>))
        (urls (venue_init\<lparr>found_div := True, urls := [''https://foursquare.com/v/a1'']\<rparr>))
   \<and> urls (venue_init\<lparr>found_div := True\<rparr>) = []
   \<and> url (checkin_feed checkin_init ([] @ [venue_a])) = url (checkin_feed checkin_init [])
   \<and> url (checkin_feed checkin_init ([location_p] @ [Data ''at'']))
       = url (checkin_feed checkin_init [location_p])
   \<and> \<not> found_p (checkin_feed checkin_init ([] @ [venue_a]))
   \<and> url (checkin_feed checkin_init outside_links) = []
   \<and> urls venue_init = urls venue_init
   \<and> \<not> found_div venue_init
   \<and> urls venue_init = []"
proof -
  let ?on = "venue_init\<lparr>found_div := True\<rparr>"
  let ?hit = "venue_init\<lparr>found_div := True, urls := [''https://foursquare.com/v/a1'']\<rparr>"
  have off: "\<not> found_p (checkin_feed checkin_init [])" by code_simp
  have container:
    "list_ex (\<lambda>(name, v). name = ''class'' \<and> v = Some ''location'') [(''class'', Some ''location'')]"
    by simp
  have on: "found_p (checkin_feed checkin_init [location_p])" by code_simp
  have data: "Data ''at'' \<noteq> EndTag ''p''" by simp
  have href: "find (\<lambda>(name, v). name = ''href'') [(''href'', Some ''/v/the-brewery/1'')]
                = Some (''href'', Some ''/v/the-brewery/1'')"
    by simp
  have nolink: "\<forall>attributes. StartTag ''a'' attributes \<notin> set [location_p, EndTag ''p'']"
    by (simp add: location_p_def)
  have voff: "venue_feed venue_init [] = Inr venue_init" by simp
  have flag_off: "\<not> found_div venue_init" by (simp add: venue_init_def)
  have vclass: "attributes_dict [(''class'', Some ''venue-social'')] ''class''
                  = Some (Some ''venue-social'')"
    by (simp add: attributes_dict_def)
  have von: "venue_feed venue_init [social_div] = Inr ?on" by code_simp
  have flag_on: "found_div ?on" by simp
  have vdata: "Data ''at'' \<noteq> EndTag ''div''" by simp
  have vstay: "venue_feed venue_init ([social_div] @ [Data ''at'']) = Inr ?on" by code_simp
  have lclass: "attributes_dict [(''class'', Some ''fs track-click''),
                   (''href'', Some ''https://foursquare.com/v/a1?ref=untappd'')] ''class''
                  = Some (Some ''fs track-click'')"
    by (simp add: attributes_dict_def)
  have lhref: "attributes_dict [(''class'', Some ''fs track-click''),
                   (''href'', Some ''https://foursquare.com/v/a1?ref=untappd'')] ''href''
                  = Some (Some ''https://foursquare.com/v/a1?ref=untappd'')"
    by (simp add: attributes_dict_def)
  have vhit: "venue_feed venue_init ([social_div] @ [foursquare_a]) = Inr ?hit" by code_simp
  have vnolink: "\<forall>attributes. StartTag ''a'' attributes \<notin> set [social_div]"
    by (simp add: social_div_def)
  have cut: "hd (py_split ''?'' ''https://foursquare.com/v/a1?ref=untappd'')
               = ''https://foursquare.com/v/a1''"
    by code_simp
  note scan = C8_nested_link_scanners
    [where off = "[]" and container = "[(''class'', Some ''location'')]"
       and ts = "[location_p]" and on = "[location_p]" and t = "Data ''at''"
       and link = "[(''href'', Some ''/v/the-brewery/1'')]" and n = "''href''"
       and h = "Some ''/v/the-brewery/1''" and us = "[venue_a]"
       and nolink = "[location_p, EndTag ''p'']"
       and voff = "[]" and ?st0.0 = venue_init
       and vcontainer = "[(''class'', Some ''venue-social'')]"
       and von = "[social_div]" and ?st1.0 = ?on and vt = "Data ''at''" and ?st2.0 = ?on
       and vlink = "[(''class'', Some ''fs track-click''),
                     (''href'', Some ''https://foursquare.com/v/a1?ref=untappd'')]"
       and vh = "''https://foursquare.com/v/a1?ref=untappd''"
       and vus = "[foursquare_a]" and ?st3.0 = ?hit
       and vnolink = "[social_div]" and ?st4.0 = ?on
       and stray = venue_a and plain = "Data ''at''" and quiet = outside_links
       and vstray = foursquare_a and ?st5.0 = venue_init
       and vplain = "Data ''at''" and ?st6.0 = ?on
       and vquiet = outside_venue_links and ?st7.0 = venue_init]
  have plain: "\<not> checkin_link (Data ''at'')" by (simp add: checkin_link_def)
  have stray: "\<not> checkin_container venue_a"
    by (simp add: checkin_container_def venue_a_def)
  have quiet: "\<forall>k < length outside_links. checkin_link (outside_links ! k)
      \<longrightarrow> \<not> found_p (checkin_feed checkin_init (take k outside_links))"
    by (simp add: outside_links_def less_Suc_eq numeral_eq_Suc all_conj_distrib
          checkin_feed_def checkin_init_def location_p_def venue_a_def
          checkin_starttag_def checkin_endtag_def checkin_link_def)
  have vstray: "venue_feed venue_init ([] @ [foursquare_a]) = Inr venue_init" by code_simp
  have vplain: "\<not> venue_link (Data ''at'')" by (simp add: venue_link_def)
  have vcont: "\<not> venue_container foursquare_a"
    by (simp add: venue_container_def foursquare_a_def)
  have vrun: "venue_feed venue_init outside_venue_links = Inr venue_init" by code_simp
  have vquiet: "\<forall>k < length outside_venue_links. venue_link (outside_venue_links ! k)
      \<longrightarrow> (\<exists>sk. venue_feed venue_init (take k outside_venue_links) = Inr sk
             \<and> \<not> found_div sk)"
    by (simp add: outside_venue_links_def less_Suc_eq numeral_eq_Suc all_conj_distrib
          venue_init_def social_div_def foursquare_a_def attributes_dict_def
          venue_starttag_def venue_endtag_def venue_link_def)
  have first: "found_p (checkin_feed checkin_init ([] @ [location_p]))
   \<and> \<not> found_p (checkin_feed checkin_init ([location_p] @ [EndTag ''p'']))
   \<and> found_p (checkin_feed checkin_init ([location_p] @ [Data ''at'']))
   \<and> url (checkin_feed checkin_init ([location_p] @ [venue_a]))
       = url (checkin_feed checkin_init [location_p]) @ [Some ''/v/the-brewery/1'']
   \<and> prefix (url (checkin_feed checkin_init [location_p]))
        (url (checkin_feed checkin_init ([location_p] @ [venue_a])))
   \<and> url (checkin_feed checkin_init [location_p, EndTag ''p'']) = []
   \<and> venue_feed venue_init ([] @ [social_div]) = Inr (venue_init\<lparr>found_div := True\<rparr>)
   \<and> venue_feed venue_init ([social_div] @ [EndTag ''div''])
       = Inr (venue_init\<lparr>found_div := True, found_div := False\<rparr>)
   \<and> found_div (venue_init\<lparr>found_div := True\<rparr>)
   \<and> venue_feed venue_init ([social_div] @ [foursquare_a])
       = Inr (venue_init\<lparr>found_div := True, urls := [''https://foursquare.com/v/a1'']\<rparr>)
   \<and> prefix (urls (venue_init\<lparr>found_div := True\<rparr>))
        (urls (venue_init\<lparr>found_div := True, urls := [''https://foursquare.com/v/a1'']\<rparr>))
   \<and> urls (venue_init\<lparr>found_div := True\<rparr>) = []"
    using scan off container on data href nolink voff flag_off vclass von flag_on vdata vstay
      lclass lhref vhit vnolink cut
    by (simp add: location_p_def [symmetric] venue_a_def [symmetric]
          social_div_def [symmetric] foursquare_a_def [symmetric])
  have second: "url (checkin_feed checkin_init ([] @ [venue_a])) = url (checkin_feed checkin_init [])
   \<and> url (checkin_feed checkin_init ([location_p] @ [Data ''at'']))
       = url (checkin_feed checkin_init [location_p])
   \<and> \<not> found_p (checkin_feed checkin_init ([] @ [venue_a]))
   \<and> url (checkin_feed checkin_init outside_links) = []
   \<and> urls venue_init = urls venue_init
   \<and> \<not> found_div venue_init
   \<and> urls venue_init = []"
    using scan off plain stray quiet voff flag_off vstray vplain vcont vrun vquiet von vstay
    by blast
  from first second show ?thesis by blast
qed

text \<open>
  C8 (as stated, refuted): the flag does not clear exactly on the close token of the
  container. The end tag of a \<open>p\<close> nested in the container clears it, and the link that
  follows, still inside the container, is not emitted.
\<close>

theorem C8_nested_close_counterexample:
  "found_p (checkin_feed checkin_init [location_p, StartTag ''p'' []])
   \<and> \<not> found_p (checkin_feed checkin_init [location_p, StartTag ''p'' [], EndTag ''p''])
   \<and> url (checkin_feed checkin_init
            [location_p, StartTag ''p'' [], EndTag ''p'', venue_a, EndTag ''a'', EndTag ''p''])
       = []"
  by code_simp

text \<open>The venue scanner raises on a qualifying link without \<open>href\<close>, and on a coordinate
  tag without \<open>content\<close>.\<close>

lemma venue_feed_link_without_href:
  "venue_feed venue_init [social_div, StartTag ''a'' [(''class'', Some ''fs track-click'')]]
     = Inl KeyError"
  by code_simp

lemma venue_feed_meta_without_content:
  "venue_feed venue_init [StartTag ''meta'' [(''property'', Some ''place:location:latitude'')]]
     = Inl KeyError"
  by code_simp

section \<open>The registry during an enrichment run\<close>

lemma dict_set_map_of: "map_of (dict_set d k v) = (map_of d)(k \<mapsto> v)"
  by (induction d) (auto simp: fun_upd_twist)

lemma dict_set_keys: "set (map fst (dict_set d k v)) = insert k (set (map fst d))"
proof (induction d)
  case Nil
  then show ?case by simp
next
  case (Cons kv d)
  obtain k' v' where kv: "kv = (k', v')" by (cases kv)
  show ?case
  proof (cases "k' = k")
    case True
    with kv show ?thesis by simp
  next
    case False
    with kv Cons.IH show ?thesis by (simp add: insert_commute)
  qed
qed

lemma dict_set_distinct: "distinct (map fst d) \<Longrightarrow> distinct (map fst (dict_set d k v))"
proof (induction d)
  case Nil
  then show ?case by simp
next
  case (Cons kv d)
  obtain k' v' where kv: "kv = (k', v')" by (cases kv)
  show ?case
  proof (cases "k' = k")
    case True
    with Cons.prems kv show ?thesis by simp
  next
    case False
    from Cons.prems kv have "k' \<notin> set (map fst d)" and "distinct (map fst d)" by auto
    with False Cons.IH dict_set_keys [of d k v] kv show ?thesis by auto
  qed
qed

lemma dict_set_twice: "dict_set (dict_set d k v) k w = dict_set d k w"
  by (induction d) auto

lemma search_venue_page_frame:
  "search_venue_page e u s = (r, s') \<Longrightarrow> s' = s\<lparr>untappd_requests := untappd_requests s @ [u]\<rparr>"
  by (auto simp: search_venue_page_def get_untappd_def split: if_splits sum.splits prod.splits)

lemma search_untappd_frame:
  "search_untappd e u s = (r, s') \<Longrightarrow> \<exists>reqs. s' = s\<lparr>untappd_requests := reqs\<rparr>"
  by (auto simp: search_untappd_def get_untappd_def
           split: if_splits list.splits option.splits prod.splits dest!: search_venue_page_frame)

lemma search_foursquare_frame:
  "search_foursquare e v row s = (r, s') \<Longrightarrow> \<exists>reqs. s' = s\<lparr>foursquare_requests := reqs\<rparr>"
proof -
  assume h: "search_foursquare e v row s = (r, s')"
  have same: "s = s\<lparr>foursquare_requests := foursquare_requests s\<rparr>" by simp
  from h have "s' = s \<or> (\<exists>reqs. s' = s\<lparr>foursquare_requests := reqs\<rparr>)"
    by (auto simp: search_foursquare_def Let_def split: if_splits sum.splits pyval.splits)
  with same show ?thesis by metis
qed

lemma search_foursquare_missing_url:
  "py_index row 1 = Inr (PStr ''Missing'') \<Longrightarrow> search_foursquare e v row s = (r, s') \<Longrightarrow> s' = s"
  by (auto simp: search_foursquare_def split: sum.splits)

lemma poll_frame: "poll e s = (b, s') \<Longrightarrow> s' = s\<lparr>polls := polls s + 1\<rparr>"
  by (auto simp: poll_def)

lemma checkpoint_frame:
  "venue_dict (checkpoint e s) = venue_dict s
   \<and> untappd_requests (checkpoint e s) = untappd_requests s
   \<and> foursquare_requests (checkpoint e s) = foursquare_requests s
   \<and> foursquare_available (checkpoint e s) = foursquare_available s"
  by (simp add: checkpoint_def backup_data_def Let_def)

lemma untappd_step_frame:
  assumes "untappd_step e venue name s = (fl, s')"
  shows "foursquare_requests s' = foursquare_requests s
         \<and> foursquare_available s' = foursquare_available s
         \<and> uploads s' = uploads s
         \<and> (venue_dict s' = venue_dict s
            \<or> (\<exists>row. venue_dict s' = dict_set (venue_dict s) name row))"
proof (cases "needs_untappd (venue_dict s) name")
  case (Inl err)
  with assms show ?thesis by (simp add: untappd_step_def)
next
  case (Inr need)
  show ?thesis
  proof (cases need)
    case False
    with Inr assms show ?thesis by (simp add: untappd_step_def)
  next
    case True
    show ?thesis
    proof (cases "py_index venue 1")
      case (Inl err)
      with True Inr assms show ?thesis by (simp add: untappd_step_def)
    next
      case url: (Inr checkin_url)
      obtain r s1 where su: "search_untappd e checkin_url s = (r, s1)" by force
      from search_untappd_frame [OF su] obtain reqs where
        s1: "s1 = s\<lparr>untappd_requests := reqs\<rparr>" by blast
      show ?thesis
      proof (cases r)
        case (Inl err)
        with su s1 url True Inr assms show ?thesis by (auto simp: untappd_step_def)
      next
        case found: (Inr found)
        with su s1 url True Inr assms show ?thesis
          by (auto simp: untappd_step_def Let_def poll_def
                   split: sum.splits if_splits prod.splits bool.splits)
      qed
    qed
  qed
qed

lemma foursquare_step_frame:
  assumes "foursquare_step e name s = (fl, s')"
  shows "untappd_requests s' = untappd_requests s
         \<and> uploads s' = uploads s
         \<and> (\<not> foursquare_available s \<longrightarrow> s' = s)
         \<and> (venue_dict s' = venue_dict s
            \<or> (\<exists>row. venue_dict s' = dict_set (venue_dict s) name row))"
proof (cases "foursquare_available s")
  case False
  with assms show ?thesis by (simp add: foursquare_step_def)
next
  case avail: True
  show ?thesis
  proof (cases "map_of (venue_dict s) name")
    case None
    with avail assms show ?thesis by (simp add: foursquare_step_def)
  next
    case (Some row)
    obtain r s1 where sf: "search_foursquare e name row s = (r, s1)" by force
    from search_foursquare_frame [OF sf] obtain reqs where
      s1: "s1 = s\<lparr>foursquare_requests := reqs\<rparr>" by blast
    from assms avail Some sf s1 show ?thesis
      by (auto simp: foursquare_step_def Let_def poll_def
               split: sum.splits if_splits prod.splits bool.splits)
  qed
qed


lemma settled_index: "settled row \<Longrightarrow> \<exists>c. py_index row 0 = Inr c \<and> truthy c"
  by (cases row) (auto simp: settled_def py_index_def)

lemma untappd_step_settled:
  "map_of (venue_dict s) name = Some row \<Longrightarrow> settled row
     \<Longrightarrow> untappd_step e venue name s = (Continue, s)"
  by (auto simp: untappd_step_def needs_untappd_def dest: settled_index)

lemma foursquare_step_no_empty:
  "map_of (venue_dict s) name = Some row \<Longrightarrow> PStr [] \<notin> set row
     \<Longrightarrow> foursquare_step e name s = (fl, s') \<Longrightarrow> s' = s"
  by (auto simp: foursquare_step_def split: if_splits sum.splits)

lemma foursquare_step_missing_url:
  assumes "map_of (venue_dict s) name = Some row"
    and "py_index row 1 = Inr (PStr ''Missing'')"
    and "foursquare_step e name s = (fl, s')"
  shows "foursquare_requests s' = foursquare_requests s"
proof -
  obtain r s1 where sf: "search_foursquare e name row s = (r, s1)" by force
  from search_foursquare_missing_url [OF assms(2) sf] have "s1 = s" .
  with assms sf show ?thesis
    by (auto simp: foursquare_step_def Let_def poll_def
             split: sum.splits if_splits prod.splits bool.splits)
qed

lemma loop_body_frame:
  assumes "loop_body e venue s = (fl, s')"
  shows "venue_dict s' = venue_dict s
         \<or> (\<exists>name row. py_index venue 0 = Inr name
                \<and> venue_dict s' = dict_set (venue_dict s) name row)"
proof (cases "interrupt e (polls s)")
  case True
  with assms show ?thesis by (auto simp: loop_body_def poll_def)
next
  case False
  let ?s0 = "s\<lparr>polls := polls s + 1\<rparr>"
  show ?thesis
  proof (cases "py_index venue 0")
    case (Inl err)
    with False assms show ?thesis by (auto simp: loop_body_def poll_def)
  next
    case (Inr name)
    obtain f1 s1 where u: "untappd_step e venue name ?s0 = (f1, s1)" by force
    obtain f2 s2 where f: "foursquare_step e name s1 = (f2, s2)" by force
    from untappd_step_frame [OF u]
    have d1: "venue_dict s1 = venue_dict s
              \<or> (\<exists>row. venue_dict s1 = dict_set (venue_dict s) name row)" by simp
    from foursquare_step_frame [OF f]
    have d2: "venue_dict s2 = venue_dict s1
              \<or> (\<exists>row. venue_dict s2 = dict_set (venue_dict s1) name row)" by simp
    from d1 d2 have d12: "venue_dict s2 = venue_dict s
              \<or> (\<exists>row. venue_dict s2 = dict_set (venue_dict s) name row)"
      by (auto simp: dict_set_twice)
    have "s' = s1 \<or> s' = s2 \<or> s' = checkpoint e s2"
      using assms False Inr u f
      by (auto simp: loop_body_def poll_def split: flow.splits)
    with d1 d12 Inr show ?thesis by (auto simp: checkpoint_frame)
  qed
qed

lemma loop_body_settled:
  assumes "py_index venue 0 = Inr name"
    and "map_of (venue_dict s) name = Some row"
    and "settled row"
    and "loop_body e venue s = (fl, s')"
  shows "venue_dict s' = venue_dict s
         \<and> untappd_requests s' = untappd_requests s
         \<and> foursquare_requests s' = foursquare_requests s
         \<and> foursquare_available s' = foursquare_available s"
proof (cases "interrupt e (polls s)")
  case True
  with assms show ?thesis by (auto simp: loop_body_def poll_def)
next
  case False
  let ?s0 = "s\<lparr>polls := polls s + 1\<rparr>"
  have row0: "map_of (venue_dict ?s0) name = Some row" using assms(2) by simp
  have u: "untappd_step e venue name ?s0 = (Continue, ?s0)"
    by (rule untappd_step_settled [OF row0 assms(3)])
  obtain f2 s2 where f: "foursquare_step e name ?s0 = (f2, s2)" by force
  from assms(3) have "PStr [] \<notin> set row" by (simp add: settled_def)
  from foursquare_step_no_empty [OF row0 this f] have s2: "s2 = ?s0" .
  have "s' = ?s0 \<or> s' = checkpoint e ?s0"
    using assms(1,4) False u f s2
    by (auto simp: loop_body_def poll_def split: flow.splits)
  then show ?thesis by (auto simp: checkpoint_frame)
qed

lemma loop_body_keeps_settled:
  assumes "map_of (venue_dict s) n = Some row" and "settled row"
    and "loop_body e venue s = (fl, s')"
  shows "map_of (venue_dict s') n = Some row"
proof (cases "py_index venue 0 = Inr n")
  case True
  from loop_body_settled [OF True assms(1,2,3)] assms(1) show ?thesis by simp
next
  case False
  from loop_body_frame [OF assms(3)] False assms(1) show ?thesis
    by (auto simp: dict_set_map_of)
qed

lemma venue_loop_keeps_settled:
  "map_of (venue_dict s) n = Some row \<Longrightarrow> settled row
     \<Longrightarrow> venue_loop e venues s = (fl, s') \<Longrightarrow> map_of (venue_dict s') n = Some row"
proof (induction venues arbitrary: s)
  case Nil
  then show ?case by simp
next
  case (Cons venue venues)
  obtain f1 s1 where b: "loop_body e venue s = (f1, s1)" by force
  from loop_body_keeps_settled [OF Cons.prems(1,2) b]
  have keep: "map_of (venue_dict s1) n = Some row" .
  show ?case
  proof (cases "f1 = Continue")
    case True
    with b Cons.prems(3) have "venue_loop e venues s1 = (fl, s')" by simp
    from Cons.IH [OF keep Cons.prems(2) this] show ?thesis .
  next
    case False
    with b Cons.prems(3) have "s' = s1" by (cases f1) auto
    with keep show ?thesis by simp
  qed
qed

lemma loop_body_names:
  assumes "loop_body e venue s = (fl, s')"
  shows "set (map fst (venue_dict s)) \<subseteq> set (map fst (venue_dict s'))
         \<and> (distinct (map fst (venue_dict s)) \<longrightarrow> distinct (map fst (venue_dict s')))"
  using loop_body_frame [OF assms]
  by (auto simp del: set_map simp add: dict_set_keys dict_set_distinct)

lemma venue_loop_names:
  "venue_loop e venues s = (fl, s') \<Longrightarrow>
     set (map fst (venue_dict s)) \<subseteq> set (map fst (venue_dict s'))
     \<and> (distinct (map fst (venue_dict s)) \<longrightarrow> distinct (map fst (venue_dict s')))"
proof (induction venues arbitrary: s)
  case Nil
  then show ?case by simp
next
  case (Cons venue venues)
  obtain f1 s1 where b: "loop_body e venue s = (f1, s1)" by force
  note step = loop_body_names [OF b]
  show ?case
  proof (cases "f1 = Continue")
    case True
    with b Cons.prems have "venue_loop e venues s1 = (fl, s')" by simp
    from Cons.IH [OF this] step show ?thesis by blast
  next
    case False
    with b Cons.prems have "s' = s1" by (cases f1) auto
    with step show ?thesis by simp
  qed
qed

lemma venue_loop_settled:
  assumes "\<forall>venue \<in> set venues. \<exists>name row.
             py_index venue 0 = Inr name \<and> map_of (venue_dict s) name = Some row \<and> settled row"
    and "venue_loop e venues s = (fl, s')"
  shows "venue_dict s' = venue_dict s
         \<and> untappd_requests s' = untappd_requests s
         \<and> foursquare_requests s' = foursquare_requests s"
  using assms
proof (induction venues arbitrary: s)
  case Nil
  then show ?case by simp
next
  case (Cons venue venues)
  from Cons.prems(1) obtain name row where
    v: "py_index venue 0 = Inr name" "map_of (venue_dict s) name = Some row" "settled row"
    by auto
  obtain f1 s1 where b: "loop_body e venue s = (f1, s1)" by force
  from loop_body_settled [OF v b]
  have same: "venue_dict s1 = venue_dict s" "untappd_requests s1 = untappd_requests s"
    "foursquare_requests s1 = foursquare_requests s" by simp_all
  show ?case
  proof (cases "f1 = Continue")
    case True
    with b Cons.prems(2) have run: "venue_loop e venues s1 = (fl, s')" by simp
    from Cons.prems(1) same have
      "\<forall>venue \<in> set venues. \<exists>name row.
         py_index venue 0 = Inr name \<and> map_of (venue_dict s1) name = Some row \<and> settled row"
      by simp
    from Cons.IH [OF this run] same show ?thesis by simp
  next
    case False
    with b Cons.prems(2) have "s' = s1" by (cases f1) auto
    with same show ?thesis by simp
  qed
qed

lemma read_rows_distinct:
  "read_rows rows d = Inr d' \<Longrightarrow> distinct (map fst d) \<Longrightarrow> distinct (map fst d')"
proof (induction rows d rule: read_rows.induct)
  case (1 d)
  then show ?case by simp
next
  case (2 rows d)
  then show ?case by simp
next
  case (3 venue data rows d)
  then show ?case by (simp add: dict_set_distinct)
qed

lemma read_csv_to_dict_distinct: "read_csv_to_dict csv = Inr d \<Longrightarrow> distinct (map fst d)"
  by (auto simp: read_csv_to_dict_def split: if_splits dest: read_rows_distinct)

lemma loop_body_no_requests:
  assumes "py_index venue 0 = Inr name"
    and "map_of (venue_dict s) name = Some row"
    and "row \<noteq> []" and "truthy (hd row)"
    and "PStr [] \<notin> set row \<or> py_index row 1 = Inr (PStr ''Missing'')"
    and "loop_body e venue s = (fl, s')"
  shows "untappd_requests s' = untappd_requests s
         \<and> foursquare_requests s' = foursquare_requests s"
proof (cases "PStr [] \<notin> set row")
  case True
  with assms(3,4) have "settled row" by (simp add: settled_def)
  from loop_body_settled [OF assms(1,2) this assms(6)] show ?thesis by simp
next
  case False
  with assms(5) have url: "py_index row 1 = Inr (PStr ''Missing'')" by simp
  show ?thesis
  proof (cases "interrupt e (polls s)")
    case True
    with assms(6) show ?thesis by (auto simp: loop_body_def poll_def)
  next
    case no_int: False
    let ?s0 = "s\<lparr>polls := polls s + 1\<rparr>"
    have row0: "map_of (venue_dict ?s0) name = Some row" using assms(2) by simp
    from assms(3,4) have "needs_untappd (venue_dict ?s0) name = Inr False"
      using assms(2) by (cases row) (auto simp: needs_untappd_def py_index_def)
    then have u: "untappd_step e venue name ?s0 = (Continue, ?s0)"
      by (simp add: untappd_step_def)
    obtain f2 s2 where f: "foursquare_step e name ?s0 = (f2, s2)" by force
    from foursquare_step_missing_url [OF row0 url f] foursquare_step_frame [OF f]
    have s2: "foursquare_requests s2 = foursquare_requests s"
      "untappd_requests s2 = untappd_requests s" by simp_all
    have "s' = ?s0 \<or> s' = s2 \<or> s' = checkpoint e s2"
      using assms(1,6) no_int u f
      by (auto simp: loop_body_def poll_def split: flow.splits)
    with s2 show ?thesis by (auto simp: checkpoint_frame)
  qed
qed

lemma clean_step_skip:
  "PStr ''Missing'' \<notin> set venue_data \<or> py_index venue_data 1 = Inr (PStr ''Missing'')
     \<Longrightarrow> clean_step e venue_data requests = (fl, row', requests')
     \<Longrightarrow> row' = venue_data \<and> requests' = requests"
  by (auto simp: clean_step_def split: sum.splits if_splits)

lemma clean_step_request:
  assumes "PStr ''Missing'' \<in> set venue_data"
    and "py_index venue_data 1 = Inr (PStr u)" and "u \<noteq> ''Missing''"
    and "5 \<le> length venue_data"
  shows "snd (snd (clean_step e venue_data requests)) = requests @ [after_last CHR ''/'' u]"
proof -
  from assms(4) obtain c0 c1 where
    c: "py_index venue_data 3 = Inr c0" "py_index venue_data 4 = Inr c1"
    by (auto simp: py_index_def)
  with assms(1,2,3) show ?thesis
    by (auto simp: clean_step_def clean_search_foursquare_def Let_def
             split: sum.splits if_splits)
qed

section \<open>C7: a resolved registry needs no request\<close>

text \<open>
  C7: when every venue of the list has a record that is fully resolved (a non-empty
  Untappd url and no empty cell), a run of the enrichment makes no request, neither to
  Untappd nor to Foursquare, and leaves the registry as it read it.
\<close>

theorem C7_resolved_registry_no_requests:
  assumes "read_csv_to_dict csv = Inr d"
    and "\<forall>venue \<in> set venue_list. \<exists>name row.
           py_index venue 0 = Inr name \<and> map_of d name = Some row \<and> settled row"
    and "locations_main e venue_list csv = (r, s)"
  shows "untappd_requests s = [] \<and> foursquare_requests s = [] \<and> venue_dict s = d"
proof -
  obtain fl s1 where loop: "venue_loop e venue_list (initial_state e d) = (fl, s1)" by force
  from assms(2) have
    "\<forall>venue \<in> set venue_list. \<exists>name row.
       py_index venue 0 = Inr name \<and> map_of (venue_dict (initial_state e d)) name = Some row
       \<and> settled row"
    by (simp add: initial_state_def)
  from venue_loop_settled [OF this loop]
  have s1: "venue_dict s1 = d" "untappd_requests s1 = []" "foursquare_requests s1 = []"
    by (simp_all add: initial_state_def)
  from assms(1,3) loop have "s = s1 \<or> s = backup_data s1"
    by (auto simp: locations_main_def split: flow.splits)
  with s1 show ?thesis by (auto simp: backup_data_def)
qed

theorem C7_resolved_registry_no_requests_witness:
  "untappd_requests (snd (locations_main env_ok [the_brewery] [''The Brewery'' # row_complete])) = []
   \<and> foursquare_requests
       (snd (locations_main env_ok [the_brewery] [''The Brewery'' # row_complete])) = []
   \<and> venue_dict (snd (locations_main env_ok [the_brewery] [''The Brewery'' # row_complete]))
       = [(''The Brewery'', map PStr row_complete)]"
proof -
  have rd: "read_csv_to_dict [''The Brewery'' # row_complete]
              = Inr [(''The Brewery'', map PStr row_complete)]"
    by (simp add: read_csv_to_dict_def)
  have resolved: "\<forall>venue \<in> set [the_brewery]. \<exists>name row.
      py_index venue 0 = Inr name
      \<and> map_of [(''The Brewery'', map PStr row_complete)] name = Some row \<and> settled row"
    by (simp add: the_brewery_def py_index_def settled_def row_complete_def)
  have run: "locations_main env_ok [the_brewery] [''The Brewery'' # row_complete]
               = (fst (locations_main env_ok [the_brewery] [''The Brewery'' # row_complete]),
                  snd (locations_main env_ok [the_brewery] [''The Brewery'' # row_complete]))"
    by simp
  from C7_resolved_registry_no_requests [OF rd resolved run] show ?thesis .
qed

section \<open>C1: what a reconciliation step may change\<close>

text \<open>
  C1 (as stated, refuted): a field that is Resolved does change. The record has the
  coordinates that Untappd gave; the search of Foursquare succeeds and the loop body
  replaces the latitude \<open>'32.7'\<close> and the longitude \<open>'-117.1'\<close> by those of Foursquare.
\<close>

theorem C1_resolved_coordinates_counterexample:
  "field_state (PStr ''32.7'') = Resolved
   \<and> venue_dict (snd (loop_body env_ok the_brewery
         (initial_state env_ok [(''The Brewery'', map PStr row_pending)])))
       = [(''The Brewery'',
           [PStr ''https://untappd.com/v/the-brewery/1'', PStr ''https://foursquare.com/v/a1'',
            PStr ''1 Main St, San Diego'', PNum 33, PNum (- 117), PStr ''Brewery'',
            PBool True])]"
  by code_simp

text \<open>
  C1 (amended): the monotonicity holds for records, not for single fields. The loop body
  of the enrichment run never changes a record that has a non-empty Untappd url and no
  empty cell, and the premium pass never changes a record that has no \<open>'Missing'\<close> cell
  or whose Foursquare url is \<open>'Missing'\<close>. A record that still has such a cell gets its
  attribute fields rewritten together from one result.
\<close>

theorem C1_settled_records_unchanged:
  "(py_index venue 0 = Inr name \<and> map_of (venue_dict s) name = Some row \<and> settled row
      \<longrightarrow> venue_dict (snd (loop_body e venue s)) = venue_dict s)
   \<and> (PStr ''Missing'' \<notin> set venue_data \<or> py_index venue_data 1 = Inr (PStr ''Missing'')
      \<longrightarrow> fst (snd (clean_step e venue_data requests)) = venue_data)"
proof (intro conjI impI)
  assume h: "py_index venue 0 = Inr name \<and> map_of (venue_dict s) name = Some row \<and> settled row"
  have "loop_body e venue s = (fst (loop_body e venue s), snd (loop_body e venue s))" by simp
  with h loop_body_settled show "venue_dict (snd (loop_body e venue s)) = venue_dict s"
    by blast
next
  assume h: "PStr ''Missing'' \<notin> set venue_data \<or> py_index venue_data 1 = Inr (PStr ''Missing'')"
  obtain fl row' requests' where "clean_step e venue_data requests = (fl, row', requests')"
    by (metis prod_cases3)
  with clean_step_skip [OF h this] show "fst (snd (clean_step e venue_data requests)) = venue_data"
    by simp
qed

theorem C1_settled_records_unchanged_witness:
  "venue_dict (snd (loop_body env_ok the_brewery
        (initial_state env_ok [(''The Brewery'', map PStr row_complete)])))
     = [(''The Brewery'', map PStr row_complete)]
   \<and> fst (snd (clean_step env_ok (map PStr row_complete) [])) = map PStr row_complete"
proof -
  have name: "py_index the_brewery 0 = Inr ''The Brewery''"
    by (simp add: the_brewery_def py_index_def)
  have row: "map_of (venue_dict (initial_state env_ok [(''The Brewery'', map PStr row_complete)]))
               ''The Brewery'' = Some (map PStr row_complete)"
    by (simp add: initial_state_def)
  have resolved: "settled (map PStr row_complete)"
    by (simp add: settled_def row_complete_def)
  have none: "PStr ''Missing'' \<notin> set (map PStr row_complete)"
    by (simp add: row_complete_def)
  from C1_settled_records_unchanged
         [where venue = the_brewery and name = "''The Brewery''"
            and s = "initial_state env_ok [(''The Brewery'', map PStr row_complete)]"
            and row = "map PStr row_complete" and e = env_ok
            and venue_data = "map PStr row_complete" and requests = "[]"]
       name row resolved none
  show ?thesis by (simp add: initial_state_def)
qed

text \<open>
  A record with an address and categories but an empty country match is asked for
  again, and a failed request empties the address and the categories with it.
\<close>

lemma mixed_record_rewritten:
  "venue_dict (snd (loop_body env_500 the_brewery
      (initial_state env_500
         [(''The Brewery'',
           [PStr ''https://untappd.com/v/the-brewery/1'', PStr ''https://foursquare.com/v/a1'',
            PStr ''1 Main St, San Diego'', PStr ''32.7'', PStr ''-117.1'', PStr ''Brewery'',
            PStr []])])))
     = [(''The Brewery'',
         [PStr ''https://untappd.com/v/the-brewery/1'', PStr ''https://foursquare.com/v/a1'',
          PStr [], PStr ''32.7'', PStr ''-117.1'', PStr [], PStr []])]"
  by code_simp

section \<open>C3: which records are asked for again\<close>

text \<open>
  C3 (as stated, refuted): the premium pass does ask again. The enrichment run marked
  the address, the categories and the country match of the record \<open>'Missing'\<close>, with "do
  not try again"; the loop of the premium pass sends a details request for the venue.
\<close>

theorem C3_premium_retry_counterexample:
  "field_state (PStr ''Missing'') = PermanentlyUnavailable
   \<and> snd (snd (clean_step env_500 (map PStr row_missing) [])) = [''a1'']"
  by code_simp

text \<open>
  C3 (amended): the enrichment run makes no request for a record with a non-empty
  Untappd url that has no empty cell or whose Foursquare url is \<open>'Missing'\<close>; so it never
  asks again for a field it marked \<open>'Missing'\<close>. The premium pass makes no request for a
  record without a \<open>'Missing'\<close> cell (a record marked \<open>'Unavailable'\<close> is such a record) or
  with the Foursquare url \<open>'Missing'\<close>, and it does make one details request for every
  other record: it retries the fields that the enrichment run marked \<open>'Missing'\<close>.
\<close>

theorem C3_requests_for_marked_records:
  "(py_index venue 0 = Inr name \<and> map_of (venue_dict s) name = Some row
      \<and> row \<noteq> [] \<and> truthy (hd row)
      \<and> (PStr [] \<notin> set row \<or> py_index row 1 = Inr (PStr ''Missing''))
      \<longrightarrow> untappd_requests (snd (loop_body e venue s)) = untappd_requests s
          \<and> foursquare_requests (snd (loop_body e venue s)) = foursquare_requests s)
   \<and> (PStr ''Missing'' \<notin> set skipped \<or> py_index skipped 1 = Inr (PStr ''Missing'')
      \<longrightarrow> snd (snd (clean_step e skipped requests)) = requests)
   \<and> (PStr ''Missing'' \<in> set venue_data \<and> py_index venue_data 1 = Inr (PStr u)
      \<and> u \<noteq> ''Missing'' \<and> 5 \<le> length venue_data
      \<longrightarrow> snd (snd (clean_step e venue_data requests)) = requests @ [after_last CHR ''/'' u])"
proof (intro conjI impI)
  assume h: "py_index venue 0 = Inr name \<and> map_of (venue_dict s) name = Some row
      \<and> row \<noteq> [] \<and> truthy (hd row)
      \<and> (PStr [] \<notin> set row \<or> py_index row 1 = Inr (PStr ''Missing''))"
  have run: "loop_body e venue s = (fst (loop_body e venue s), snd (loop_body e venue s))"
    by simp
  from h have h1: "py_index venue 0 = Inr name" and h2: "map_of (venue_dict s) name = Some row"
    and h3: "row \<noteq> []" and h4: "truthy (hd row)"
    and h5: "PStr [] \<notin> set row \<or> py_index row 1 = Inr (PStr ''Missing'')"
    by simp_all
  have "untappd_requests (snd (loop_body e venue s)) = untappd_requests s
         \<and> foursquare_requests (snd (loop_body e venue s)) = foursquare_requests s"
    by (rule loop_body_no_requests [OF h1 h2 h3 h4 h5 run])
  then show "untappd_requests (snd (loop_body e venue s)) = untappd_requests s"
    and "foursquare_requests (snd (loop_body e venue s)) = foursquare_requests s"
    by simp_all
next
  assume h: "PStr ''Missing'' \<notin> set skipped \<or> py_index skipped 1 = Inr (PStr ''Missing'')"
  obtain fl row' requests' where "clean_step e skipped requests = (fl, row', requests')"
    by (metis prod_cases3)
  with clean_step_skip [OF h this] show "snd (snd (clean_step e skipped requests)) = requests"
    by simp
next
  assume "PStr ''Missing'' \<in> set venue_data \<and> py_index venue_data 1 = Inr (PStr u)
      \<and> u \<noteq> ''Missing'' \<and> 5 \<le> length venue_data"
  then have "PStr ''Missing'' \<in> set venue_data" and "py_index venue_data 1 = Inr (PStr u)"
    and "u \<noteq> ''Missing''" and "5 \<le> length venue_data"
    by simp_all
  then show "snd (snd (clean_step e venue_data requests)) = requests @ [after_last CHR ''/'' u]"
    by (rule clean_step_request)
qed

theorem C3_requests_for_marked_records_witness:
  "untappd_requests (snd (loop_body env_ok the_brewery
        (initial_state env_ok [(''The Brewery'', map PStr row_missing)]))) = []
   \<and> foursquare_requests (snd (loop_body env_ok the_brewery
        (initial_state env_ok [(''The Brewery'', map PStr row_missing)]))) = []
   \<and> snd (snd (clean_step env_ok (map PStr row_complete) [])) = []
   \<and> snd (snd (clean_step env_ok (map PStr row_missing) []))
       = [] @ [after_last CHR ''/'' ''https://foursquare.com/v/a1'']"
proof -
  have name: "py_index the_brewery 0 = Inr ''The Brewery''"
    by (simp add: the_brewery_def py_index_def)
  have row: "map_of (venue_dict (initial_state env_ok [(''The Brewery'', map PStr row_missing)]))
               ''The Brewery'' = Some (map PStr row_missing)"
    by (simp add: initial_state_def)
  have marked: "map PStr row_missing \<noteq> [] \<and> truthy (hd (map PStr row_missing))
                  \<and> PStr [] \<notin> set (map PStr row_missing)"
    by (simp add: row_missing_def)
  have none: "PStr ''Missing'' \<notin> set (map PStr row_complete)"
    by (simp add: row_complete_def)
  have some: "PStr ''Missing'' \<in> set (map PStr row_missing)
                \<and> py_index (map PStr row_missing) 1 = Inr (PStr ''https://foursquare.com/v/a1'')
                \<and> ''https://foursquare.com/v/a1'' \<noteq> ''Missing''
                \<and> 5 \<le> length (map PStr row_missing)"
    by (simp add: row_missing_def py_index_def)
  from C3_requests_for_marked_records
         [where venue = the_brewery and name = "''The Brewery''"
            and s = "initial_state env_ok [(''The Brewery'', map PStr row_missing)]"
            and row = "map PStr row_missing" and e = env_ok
            and skipped = "map PStr row_complete" and requests = "[]"
            and venue_data = "map PStr row_missing" and u = "''https://foursquare.com/v/a1''"]
       name row marked none some
  show ?thesis by (simp add: initial_state_def)
qed

section \<open>C2: after a transient failure of the lookup API\<close>

text \<open>
  In the enrichment run the breaker holds: once \<open>foursquare_available\<close> is cleared, the
  rest of the loop sends nothing to Foursquare.
\<close>

lemma venue_loop_breaker:
  "\<not> foursquare_available s \<Longrightarrow> venue_loop e venues s = (fl, s')
     \<Longrightarrow> foursquare_requests s' = foursquare_requests s \<and> \<not> foursquare_available s'"
proof (induction venues arbitrary: s)
  case Nil
  then show ?case by simp
next
  case (Cons venue venues)
  obtain f1 s1 where b: "loop_body e venue s = (f1, s1)" by force
  have step: "foursquare_requests s1 = foursquare_requests s \<and> \<not> foursquare_available s1"
  proof (cases "interrupt e (polls s)")
    case True
    with b Cons.prems(1) show ?thesis by (auto simp: loop_body_def poll_def)
  next
    case False
    let ?s0 = "s\<lparr>polls := polls s + 1\<rparr>"
    show ?thesis
    proof (cases "py_index venue 0")
      case (Inl err)
      with False b Cons.prems(1) show ?thesis by (auto simp: loop_body_def poll_def)
    next
      case (Inr name)
      obtain fu su where u: "untappd_step e venue name ?s0 = (fu, su)" by force
      from untappd_step_frame [OF u] Cons.prems(1)
      have su: "foursquare_requests su = foursquare_requests s" "\<not> foursquare_available su"
        by simp_all
      obtain ff sf where f: "foursquare_step e name su = (ff, sf)" by force
      from foursquare_step_frame [OF f] su have sf: "sf = su" by simp
      have "s1 = su \<or> s1 = checkpoint e su"
        using b False Inr u f sf by (auto simp: loop_body_def poll_def split: flow.splits)
      with su show ?thesis by (auto simp: checkpoint_frame)
    qed
  qed
  show ?case
  proof (cases "f1 = Continue")
    case True
    with b Cons.prems(2) have "venue_loop e venues s1 = (fl, s')" by simp
    from Cons.IH [OF _ this] step show ?thesis by simp
  next
    case False
    with b Cons.prems(2) have "s' = s1" by (cases f1) auto
    with step show ?thesis by simp
  qed
qed

text \<open>
  And a request that Foursquare answers with another status than 200 clears
  \<open>foursquare_available\<close>.
\<close>

lemma last5_set_last5: "length new = 5 \<Longrightarrow> last5 (set_last5 row new) = new"
  by (simp add: last5_def set_last5_def min_def)

lemma search_foursquare_transient:
  assumes "search_foursquare e name row s = (r, s')"
    and "foursquare_requests s' \<noteq> foursquare_requests s"
    and "fst (foursquare_get e (length (foursquare_requests s))) \<noteq> 200"
  shows "\<exists>c0 c1. r = Inr [PStr [], c0, c1, PStr [], PStr []]"
  using assms
  by (auto simp: search_foursquare_def search_response_def Let_def
           split: sum.splits if_splits pyval.splits)

lemma foursquare_step_transient:
  assumes "foursquare_step e name s = (fl, s')"
    and "foursquare_requests s' \<noteq> foursquare_requests s"
    and "fst (foursquare_get e (length (foursquare_requests s))) \<noteq> 200"
  shows "\<not> foursquare_available s'"
proof -
  from assms(1,2) have avail: "foursquare_available s"
    using foursquare_step_frame [OF assms(1)] by auto
  from assms(1,2) avail obtain row where row: "map_of (venue_dict s) name = Some row"
    by (auto simp: foursquare_step_def split: option.splits)
  obtain r s1 where sf: "search_foursquare e name row s = (r, s1)" by force
  from search_foursquare_frame [OF sf] obtain reqs where
    s1: "s1 = s\<lparr>foursquare_requests := reqs\<rparr>" by blast
  from assms(1,2) avail row sf s1 have made: "foursquare_requests s1 \<noteq> foursquare_requests s"
    by (auto simp: foursquare_step_def Let_def poll_def
             split: sum.splits if_splits prod.splits bool.splits)
  from search_foursquare_transient [OF sf made assms(3)]
  obtain c0 c1 where f: "r = Inr [PStr [], c0, c1, PStr [], PStr []]" by blast
  have "PStr [] \<in> set (last5 (set_last5 row [PStr [], c0, c1, PStr [], PStr []]))"
    by (simp add: last5_set_last5)
  with assms(1,2) avail row sf f s1 show ?thesis
    by (auto simp: foursquare_step_def Let_def poll_def
             split: sum.splits if_splits prod.splits bool.splits)
qed

text \<open>
  C2 (the code departs from the claim): in the premium pass the test after the search
  reads the cell of the latitude, \<open>venue_dict[venue][3]\<close>, where a failed request leaves
  the old coordinate, so the loop does not stop. Foursquare answers 500 to the request for
  the first record, and the request for the second record is sent all the same.
\<close>

theorem C2_premium_pass_requests_after_failure:
  "clean_main env_500 [''The Brewery'' # row_missing, ''Taproom'' # taproom_missing]
     = (None,
        Some [PStr ''The Brewery'' # map PStr row_missing,
              PStr ''Taproom'' # map PStr taproom_missing],
        [''a1'', ''b2''])"
  by code_simp

section \<open>C9: the registry is persisted when the loop ends\<close>

lemma venue_loop_append:
  "venue_loop e (xs @ ys) s =
     (case venue_loop e xs s of (Continue, s') \<Rightarrow> venue_loop e ys s' | other \<Rightarrow> other)"
proof (induction xs arbitrary: s)
  case Nil
  then show ?case by simp
next
  case (Cons x xs)
  obtain f1 s1 where b: "loop_body e x s = (f1, s1)" by force
  with Cons.IH [of s1] show ?case by (cases f1) auto
qed

lemma venue_loop_interrupted:
  assumes "venue_loop e pre s = (Continue, s1)" and "interrupt e (polls s1)"
  shows "venue_loop e (pre @ venue # rest) s = (Interrupted, s1\<lparr>polls := polls s1 + 1\<rparr>)"
  using assms by (simp add: venue_loop_append loop_body_def poll_def)

lemma write_dict_to_csv_names: "map hd (write_dict_to_csv d) = map (\<lambda>kv. PStr (fst kv)) d"
  by (simp add: write_dict_to_csv_def case_prod_unfold)

lemma write_dict_to_csv_distinct:
  "distinct (map fst d) \<Longrightarrow> distinct (map hd (write_dict_to_csv d))"
proof -
  assume "distinct (map fst d)"
  then have "distinct (map PStr (map fst d))" by (simp add: distinct_map inj_on_def)
  then show ?thesis by (simp add: write_dict_to_csv_names comp_def)
qed

lemma write_dict_to_csv_record:
  "map_of d name = Some row \<Longrightarrow> PStr name # row \<in> set (write_dict_to_csv d)"
  by (force simp: write_dict_to_csv_def dest: map_of_SomeD)

lemma write_dict_to_csv_known:
  "name \<in> set (map fst d) \<Longrightarrow> \<exists>data. PStr name # data \<in> set (write_dict_to_csv d)"
  by (force simp: write_dict_to_csv_def)

lemma locations_main_persisted:
  assumes "read_csv_to_dict csv = Inr d" and "locations_main e venue_list csv = (None, s)"
  shows "\<exists>fl s1. venue_loop e venue_list (initial_state e d) = (fl, s1) \<and> s = backup_data s1"
proof -
  obtain fl s1 where loop: "venue_loop e venue_list (initial_state e d) = (fl, s1)" by force
  with assms have "s = backup_data s1"
    by (cases fl) (auto simp: locations_main_def)
  with loop show ?thesis by blast
qed

lemma search_foursquare_result:
  "foursquare_requests s = foursquare_requests s'
     \<Longrightarrow> fst (search_foursquare e v row s) = fst (search_foursquare e v row s')"
  by (auto simp: search_foursquare_def Let_def split: sum.splits pyval.splits)

lemma search_untappd_result:
  "untappd_requests s = untappd_requests s'
     \<Longrightarrow> fst (search_untappd e u s) = fst (search_untappd e u s')"
  by (auto simp: search_untappd_def search_venue_page_def get_untappd_def
           split: prod.splits list.splits option.splits sum.splits)

lemma venue_loop_keeps_entry:
  "\<forall>v \<in> set rest. py_index v 0 \<noteq> Inr name \<Longrightarrow> venue_loop e rest s = (fl, s')
     \<Longrightarrow> map_of (venue_dict s') name = map_of (venue_dict s) name"
proof (induction rest arbitrary: s)
  case Nil
  then show ?case by simp
next
  case (Cons venue rest)
  obtain f1 s1 where b: "loop_body e venue s = (f1, s1)" by force
  from Cons.prems(1) have other: "py_index venue 0 \<noteq> Inr name" by simp
  from loop_body_frame [OF b] other
  have step: "map_of (venue_dict s1) name = map_of (venue_dict s) name"
    by (auto simp: dict_set_map_of)
  show ?case
  proof (cases "f1 = Continue")
    case True
    with b Cons.prems(2) have "venue_loop e rest s1 = (fl, s')" by simp
    from Cons.IH [OF _ this] Cons.prems(1) step show ?thesis by simp
  next
    case False
    with b Cons.prems(2) have "s' = s1" by (cases f1) auto
    with step show ?thesis by simp
  qed
qed

lemma foursquare_step_stores:
  assumes "map_of (venue_dict s) name = Some row"
    and "foursquare_available s"
    and "py_index row 1 = Inr f" and "truthy f" and "PStr [] \<in> set row"
    and "fst (search_foursquare e name row s) = Inr found"
  shows "(\<forall>err. fst (foursquare_step e name s) \<noteq> Raised err)
         \<and> map_of (venue_dict (snd (foursquare_step e name s))) name
             = Some (set_last5 row found)"
proof -
  obtain r s1 where sf: "search_foursquare e name row s = (r, s1)" by force
  with assms(6) have r: "r = Inr found" by simp
  from search_foursquare_frame [OF sf] obtain reqs where
    s1: "s1 = s\<lparr>foursquare_requests := reqs\<rparr>" by blast
  from assms(1-5) sf r s1 show ?thesis
    by (cases "interrupt e (polls s)")
       (simp_all add: foursquare_step_def Let_def poll_def dict_set_map_of)
qed

lemma foursquare_step_skips:
  assumes "map_of (venue_dict s) name = Some row"
    and "\<not> foursquare_available s \<or> (\<exists>f. py_index row 1 = Inr f \<and> \<not> truthy f)"
  shows "foursquare_step e name s = (Continue, s)"
  using assms by (auto simp: foursquare_step_def)

lemma checkpoint_dict: "venue_dict (checkpoint e s) = venue_dict s"
  by (simp add: checkpoint_frame)

lemma loop_body_stores_lookup:
  assumes "\<not> interrupt e (polls s)" and "py_index venue 0 = Inr name"
    and "map_of (venue_dict s) name = Some row" and "row \<noteq> []" and "truthy (hd row)"
    and "foursquare_available s"
    and "py_index row 1 = Inr f" and "truthy f" and "PStr [] \<in> set row"
    and "fst (search_foursquare e name row s) = Inr found"
  shows "(\<forall>err. fst (loop_body e venue s) \<noteq> Raised err)
         \<and> map_of (venue_dict (snd (loop_body e venue s))) name
             = Some (set_last5 row found)"
proof -
  let ?s0 = "s\<lparr>polls := polls s + 1\<rparr>"
  have row0: "map_of (venue_dict ?s0) name = Some row" using assms(3) by simp
  from assms(4,5) have "needs_untappd (venue_dict ?s0) name = Inr False"
    using assms(3) by (cases row) (auto simp: needs_untappd_def py_index_def)
  then have u: "untappd_step e venue name ?s0 = (Continue, ?s0)"
    by (simp add: untappd_step_def)
  have "fst (search_foursquare e name row ?s0) = Inr found"
    using assms(10) search_foursquare_result [of ?s0 s e name row] by simp
  from foursquare_step_stores [OF row0 _ assms(7,8,9) this] assms(6)
  have f: "(\<forall>err. fst (foursquare_step e name ?s0) \<noteq> Raised err)
         \<and> map_of (venue_dict (snd (foursquare_step e name ?s0))) name
             = Some (set_last5 row found)"
    by simp
  obtain ff sf where fs: "foursquare_step e name ?s0 = (ff, sf)" by force
  with f have "\<forall>err. ff \<noteq> Raised err"
    and "map_of (venue_dict sf) name = Some (set_last5 row found)" by simp_all
  with assms(1,2) u fs show ?thesis
    by (cases ff) (simp_all add: loop_body_def poll_def checkpoint_dict)
qed

lemma untappd_step_stores:
  assumes "needs_untappd (venue_dict s) name = Inr True" and "py_index venue 1 = Inr u"
    and "search_untappd e u s = (Inr found, s1)"
  shows "\<exists>s2. venue_dict s2 = dict_set (venue_dict s) name (found @ [PStr [], PStr []])
           \<and> foursquare_available s2 = foursquare_available s
           \<and> foursquare_requests s2 = foursquare_requests s
           \<and> (if \<not> truthy ((found @ [PStr [], PStr []]) ! 0)
               then polls s2 = polls s \<and> untappd_step e venue name s = (Break, s2)
               else polls s2 = polls s + 1
                    \<and> untappd_step e venue name s
                        = (if interrupt e (polls s) then Interrupted else Continue, s2))"
proof -
  from search_untappd_frame [OF assms(3)] obtain reqs where
    s1: "s1 = s\<lparr>untappd_requests := reqs\<rparr>" by blast
  have idx: "py_index (found @ [PStr [], PStr []]) 0 = Inr ((found @ [PStr [], PStr []]) ! 0)"
    by (simp add: py_index_def)
  show ?thesis
  proof (cases "truthy ((found @ [PStr [], PStr []]) ! 0)")
    case False
    with assms s1 idx show ?thesis
      by (intro exI [of _ "s1\<lparr>venue_dict := dict_set (venue_dict s1) name
                                   (found @ [PStr [], PStr []])\<rparr>"])
         (simp add: untappd_step_def Let_def)
  next
    case True
    with assms s1 idx show ?thesis
      by (intro exI [of _ "s1\<lparr>venue_dict := dict_set (venue_dict s1) name
                                   (found @ [PStr [], PStr []]),
                                 polls := polls s1 + 1\<rparr>"])
         (simp add: untappd_step_def Let_def poll_def)
  qed
qed


lemma loop_body_stores_page:
  assumes "\<not> interrupt e (polls s)" and "py_index venue 0 = Inr name"
    and "needs_untappd (venue_dict s) name = Inr True" and "py_index venue 1 = Inr u"
    and "fst (search_untappd e u s) = Inr found"
    and "\<not> truthy ((found @ [PStr [], PStr []]) ! 0) \<or> interrupt e (polls s + 1)
         \<or> \<not> foursquare_available s \<or> \<not> truthy ((found @ [PStr [], PStr []]) ! 1)"
  shows "(\<forall>err. fst (loop_body e venue s) \<noteq> Raised err)
         \<and> map_of (venue_dict (snd (loop_body e venue s))) name
             = Some (found @ [PStr [], PStr []])"
proof -
  let ?s0 = "s\<lparr>polls := polls s + 1\<rparr>"
  let ?row = "found @ [PStr [], PStr []]"
  obtain r sa where su: "search_untappd e u ?s0 = (r, sa)" by force
  have "fst (search_untappd e u ?s0) = fst (search_untappd e u s)"
    by (rule search_untappd_result) simp
  with su assms(5) have su': "search_untappd e u ?s0 = (Inr found, sa)" by simp
  from assms(3) have need: "needs_untappd (venue_dict ?s0) name = Inr True" by simp
  from untappd_step_stores [OF need assms(4) su'] obtain sb where
    d: "venue_dict sb = dict_set (venue_dict ?s0) name ?row"
    and av: "foursquare_available sb = foursquare_available s"
    and st: "if \<not> truthy (?row ! 0)
               then polls sb = polls ?s0 \<and> untappd_step e venue name ?s0 = (Break, sb)
               else polls sb = polls ?s0 + 1
                    \<and> untappd_step e venue name ?s0
                        = (if interrupt e (polls ?s0) then Interrupted else Continue, sb)"
    by auto
  from d have rec: "map_of (venue_dict sb) name = Some ?row" by (simp add: dict_set_map_of)
  have idx: "py_index ?row 1 = Inr (?row ! 1)" by (simp add: py_index_def)
  show ?thesis
  proof (cases "\<not> truthy (?row ! 0) \<or> interrupt e (polls s + 1)")
    case True
    with st assms(1,2) rec show ?thesis
      by (auto simp: loop_body_def poll_def split: if_splits)
  next
    case False
    with st have u: "untappd_step e venue name ?s0 = (Continue, sb)" by simp
    from False assms(6) av idx
    have "\<not> foursquare_available sb \<or> (\<exists>f. py_index ?row 1 = Inr f \<and> \<not> truthy f)"
      by auto
    from foursquare_step_skips [OF rec this]
    have "foursquare_step e name sb = (Continue, sb)" .
    with u assms(1,2) rec show ?thesis
      by (simp add: loop_body_def poll_def checkpoint_dict)
  qed
qed

lemma loop_body_stores_both:
  assumes "\<not> interrupt e (polls s)" and "py_index venue 0 = Inr name"
    and "needs_untappd (venue_dict s) name = Inr True" and "py_index venue 1 = Inr u"
    and "fst (search_untappd e u s) = Inr found"
    and "truthy ((found @ [PStr [], PStr []]) ! 0)" and "\<not> interrupt e (polls s + 1)"
    and "foursquare_available s" and "truthy ((found @ [PStr [], PStr []]) ! 1)"
    and "fst (search_foursquare e name (found @ [PStr [], PStr []]) s) = Inr matched"
  shows "(\<forall>err. fst (loop_body e venue s) \<noteq> Raised err)
         \<and> map_of (venue_dict (snd (loop_body e venue s))) name
             = Some (set_last5 (found @ [PStr [], PStr []]) matched)"
proof -
  let ?s0 = "s\<lparr>polls := polls s + 1\<rparr>"
  let ?row = "found @ [PStr [], PStr []]"
  obtain r sa where su: "search_untappd e u ?s0 = (r, sa)" by force
  have "fst (search_untappd e u ?s0) = fst (search_untappd e u s)"
    by (rule search_untappd_result) simp
  with su assms(5) have su': "search_untappd e u ?s0 = (Inr found, sa)" by simp
  from assms(3) have need: "needs_untappd (venue_dict ?s0) name = Inr True" by simp
  from untappd_step_stores [OF need assms(4) su'] obtain sb where
    d: "venue_dict sb = dict_set (venue_dict ?s0) name ?row"
    and av: "foursquare_available sb = foursquare_available s"
    and rq: "foursquare_requests sb = foursquare_requests s"
    and st: "if \<not> truthy (?row ! 0)
               then polls sb = polls ?s0 \<and> untappd_step e venue name ?s0 = (Break, sb)
               else polls sb = polls ?s0 + 1
                    \<and> untappd_step e venue name ?s0
                        = (if interrupt e (polls ?s0) then Interrupted else Continue, sb)"
    by auto
  from st assms(6,7) have u: "untappd_step e venue name ?s0 = (Continue, sb)" by simp
  from d have rec: "map_of (venue_dict sb) name = Some ?row" by (simp add: dict_set_map_of)
  have idx: "py_index ?row 1 = Inr (?row ! 1)" by (simp add: py_index_def)
  have cell: "PStr [] \<in> set ?row" by simp
  from av assms(8) have avb: "foursquare_available sb" by simp
  have "fst (search_foursquare e name ?row sb) = fst (search_foursquare e name ?row s)"
    by (rule search_foursquare_result) (rule rq)
  with assms(10) have "fst (search_foursquare e name ?row sb) = Inr matched" by simp
  from foursquare_step_stores [OF rec avb idx assms(9) cell this]
  have f: "(\<forall>err. fst (foursquare_step e name sb) \<noteq> Raised err)
         \<and> map_of (venue_dict (snd (foursquare_step e name sb))) name
             = Some (set_last5 ?row matched)" .
  obtain ff sf where fs: "foursquare_step e name sb = (ff, sf)" by force
  with f have "\<forall>err. ff \<noteq> Raised err"
    and "map_of (venue_dict sf) name = Some (set_last5 ?row matched)" by simp_all
  with assms(1,2) u fs show ?thesis
    by (cases ff) (simp_all add: loop_body_def poll_def checkpoint_dict)
qed

lemma locations_main_uploads:
  assumes "read_csv_to_dict csv = Inr d"
    and "venue_loop e venue_list (initial_state e d) = (fl, s)"
    and "\<forall>err. fl \<noteq> Raised err"
  shows "locations_main e venue_list csv = (None, backup_data s)"
  using assms by (cases fl) (simp_all add: locations_main_def)

lemma venue_loop_keeps_written:
  assumes "venue_loop e pre s = (Continue, sa)"
    and "venue_loop e (pre @ venue # rest) s = (fl, sl)"
    and "\<forall>v \<in> set rest. py_index v 0 \<noteq> Inr name"
  shows "map_of (venue_dict sl) name = map_of (venue_dict (snd (loop_body e venue sa))) name"
proof -
  obtain fb sb where b: "loop_body e venue sa = (fb, sb)" by force
  show ?thesis
  proof (cases "fb = Continue")
    case True
    with assms(1,2) b have "venue_loop e rest sb = (fl, sl)"
      by (simp add: venue_loop_append)
    from venue_loop_keeps_entry [OF assms(3) this] b show ?thesis by simp
  next
    case False
    with assms(1,2) b have "sl = sb"
      by (cases fb) (simp_all add: venue_loop_append)
    with b show ?thesis by simp
  qed
qed

text \<open>
  C9: a run that is stopped by the operator, that reaches the end of the venue list or
  that leaves the loop by \<open>break\<close> uploads the registry as it stands when the loop ends.
  The upload has one row for every record, under distinct names; every record that was
  complete when the run started is in it unchanged, and every name that the registry had
  is in it. A stop at the start of an iteration uploads the registry exactly as the
  iterations before it left it. Only an exception that the loop does not catch ends
  \<open>main\<close> without this upload.

  Whatever ends the loop without an exception, \<open>main\<close> returns the state of the loop
  with one more upload, and that upload is the registry of that state, row by row. The
  record that an iteration leaves for its venue is in the upload when no later venue of
  the list has the same name. An iteration stores what the lookups return: the result
  of the Foursquare search replaces the last five cells of a record that has its
  Untappd data; the result of the Untappd search, followed by two empty cells, becomes
  the record of a venue that is new or without Untappd data, and the Foursquare search
  that follows in the same iteration replaces its last five cells.
\<close>

theorem C9_registry_persisted:
  assumes "read_csv_to_dict csv = Inr d"
  shows "(locations_main e venue_list csv = (None, s)
            \<longrightarrow> uploads s \<noteq> [] \<and> last (uploads s) = write_dict_to_csv (venue_dict s)
                \<and> distinct (map hd (last (uploads s))))
         \<and> (locations_main e venue_list csv = (None, s) \<and> map_of d name = Some row \<and> settled row
            \<longrightarrow> PStr name # row \<in> set (last (uploads s)))
         \<and> (locations_main e venue_list csv = (None, s) \<and> known \<in> set (map fst d)
            \<longrightarrow> (\<exists>data. PStr known # data \<in> set (last (uploads s))))
         \<and> (venue_list = pre @ venue # rest
            \<and> venue_loop e pre (initial_state e d) = (Continue, s1) \<and> interrupt e (polls s1)
            \<longrightarrow> fst (locations_main e venue_list csv) = None
                \<and> last (uploads (snd (locations_main e venue_list csv)))
                    = write_dict_to_csv (venue_dict s1))
         \<and> ((\<forall>err. fst (venue_loop e venue_list (initial_state e d)) \<noteq> Raised err)
            \<longrightarrow> fst (locations_main e venue_list csv) = None)
         \<and> (venue_loop e venue_list (initial_state e d) = (ended, final)
            \<and> (\<forall>err. ended \<noteq> Raised err)
            \<longrightarrow> locations_main e venue_list csv = (None, backup_data final)
                \<and> uploads (backup_data final)
                    = uploads final @ [write_dict_to_csv (venue_dict final)]
                \<and> venue_dict (backup_data final) = venue_dict final)
         \<and> (venue_list = earlier @ current # later
            \<and> venue_loop e earlier (initial_state e d) = (Continue, reached)
            \<and> py_index current 0 = Inr written
            \<and> (\<forall>v \<in> set later. py_index v 0 \<noteq> Inr written)
            \<and> map_of (venue_dict (snd (loop_body e current reached))) written = Some cells
            \<and> locations_main e venue_list csv = (None, sm)
            \<longrightarrow> PStr written # cells \<in> set (last (uploads sm)))
         \<and> (\<not> interrupt e (polls sf) \<and> py_index vf 0 = Inr nf
            \<and> map_of (venue_dict sf) nf = Some rf \<and> rf \<noteq> [] \<and> truthy (hd rf)
            \<and> foursquare_available sf \<and> py_index rf 1 = Inr link \<and> truthy link
            \<and> PStr [] \<in> set rf \<and> fst (search_foursquare e nf rf sf) = Inr matched
            \<longrightarrow> (\<forall>err. fst (loop_body e vf sf) \<noteq> Raised err)
                \<and> map_of (venue_dict (snd (loop_body e vf sf))) nf
                    = Some (set_last5 rf matched))
         \<and> (\<not> interrupt e (polls su) \<and> py_index vu 0 = Inr nu
            \<and> needs_untappd (venue_dict su) nu = Inr True \<and> py_index vu 1 = Inr page
            \<and> fst (search_untappd e page su) = Inr found
            \<and> (\<not> truthy ((found @ [PStr [], PStr []]) ! 0) \<or> interrupt e (polls su + 1)
                \<or> \<not> foursquare_available su
                \<or> \<not> truthy ((found @ [PStr [], PStr []]) ! 1))
            \<longrightarrow> (\<forall>err. fst (loop_body e vu su) \<noteq> Raised err)
                \<and> map_of (venue_dict (snd (loop_body e vu su))) nu
                    = Some (found @ [PStr [], PStr []]))
         \<and> (\<not> interrupt e (polls sb) \<and> py_index vb 0 = Inr nb
            \<and> needs_untappd (venue_dict sb) nb = Inr True \<and> py_index vb 1 = Inr pageb
            \<and> fst (search_untappd e pageb sb) = Inr foundb
            \<and> truthy ((foundb @ [PStr [], PStr []]) ! 0) \<and> \<not> interrupt e (polls sb + 1)
            \<and> foursquare_available sb \<and> truthy ((foundb @ [PStr [], PStr []]) ! 1)
            \<and> fst (search_foursquare e nb (foundb @ [PStr [], PStr []]) sb) = Inr matchedb
            \<longrightarrow> (\<forall>err. fst (loop_body e vb sb) \<noteq> Raised err)
                \<and> map_of (venue_dict (snd (loop_body e vb sb))) nb
                    = Some (set_last5 (foundb @ [PStr [], PStr []]) matchedb))"
proof (intro conjI impI)
  assume run: "locations_main e venue_list csv = (None, s)"
  from locations_main_persisted [OF assms run] obtain fl s0 where
    loop: "venue_loop e venue_list (initial_state e d) = (fl, s0)" and s: "s = backup_data s0"
    by blast
  from s show "uploads s \<noteq> []" by (simp add: backup_data_def)
  from s show "last (uploads s) = write_dict_to_csv (venue_dict s)"
    by (simp add: backup_data_def)
  from read_csv_to_dict_distinct [OF assms]
  have "distinct (map fst (venue_dict (initial_state e d)))" by (simp add: initial_state_def)
  with venue_loop_names [OF loop] have "distinct (map fst (venue_dict s0))" by blast
  with s show "distinct (map hd (last (uploads s)))"
    by (simp add: backup_data_def write_dict_to_csv_distinct)
next
  assume h: "locations_main e venue_list csv = (None, s) \<and> map_of d name = Some row
               \<and> settled row"
  then have run: "locations_main e venue_list csv = (None, s)" by simp
  from locations_main_persisted [OF assms run] obtain fl s0 where
    loop: "venue_loop e venue_list (initial_state e d) = (fl, s0)" and s: "s = backup_data s0"
    by blast
  from h have "map_of (venue_dict (initial_state e d)) name = Some row"
    by (simp add: initial_state_def)
  from venue_loop_keeps_settled [OF this _ loop] h
  have "map_of (venue_dict s0) name = Some row" by simp
  with s show "PStr name # row \<in> set (last (uploads s))"
    by (simp add: backup_data_def write_dict_to_csv_record)
next
  assume h: "locations_main e venue_list csv = (None, s) \<and> known \<in> set (map fst d)"
  then have run: "locations_main e venue_list csv = (None, s)" by simp
  from locations_main_persisted [OF assms run] obtain fl s0 where
    loop: "venue_loop e venue_list (initial_state e d) = (fl, s0)" and s: "s = backup_data s0"
    by blast
  from h have "known \<in> set (map fst (venue_dict (initial_state e d)))"
    by (simp add: initial_state_def)
  with venue_loop_names [OF loop] have "known \<in> set (map fst (venue_dict s0))" by blast
  from write_dict_to_csv_known [OF this] s
  show "\<exists>data. PStr known # data \<in> set (last (uploads s))"
    by (simp add: backup_data_def)
next
  assume h: "venue_list = pre @ venue # rest
            \<and> venue_loop e pre (initial_state e d) = (Continue, s1) \<and> interrupt e (polls s1)"
  then have "venue_loop e venue_list (initial_state e d)
               = (Interrupted, s1\<lparr>polls := polls s1 + 1\<rparr>)"
    by (simp add: venue_loop_interrupted)
  with assms have m: "locations_main e venue_list csv
                        = (None, backup_data (s1\<lparr>polls := polls s1 + 1\<rparr>))"
    by (simp add: locations_main_def)
  from m show "fst (locations_main e venue_list csv) = None" by simp
  from m show "last (uploads (snd (locations_main e venue_list csv)))
                 = write_dict_to_csv (venue_dict s1)"
    by (simp add: backup_data_def)
next
  assume h: "\<forall>err. fst (venue_loop e venue_list (initial_state e d)) \<noteq> Raised err"
  obtain fl s0 where loop: "venue_loop e venue_list (initial_state e d) = (fl, s0)" by force
  with h assms show "fst (locations_main e venue_list csv) = None"
    by (cases fl) (auto simp: locations_main_def)
next
  assume h: "venue_loop e venue_list (initial_state e d) = (ended, final)
               \<and> (\<forall>err. ended \<noteq> Raised err)"
  then have loop: "venue_loop e venue_list (initial_state e d) = (ended, final)"
    and caught: "\<forall>err. ended \<noteq> Raised err" by simp_all
  from locations_main_uploads [OF assms loop caught]
  show "locations_main e venue_list csv = (None, backup_data final)" .
  show "uploads (backup_data final) = uploads final @ [write_dict_to_csv (venue_dict final)]"
    by (simp add: backup_data_def)
  show "venue_dict (backup_data final) = venue_dict final"
    by (simp add: backup_data_def)
next
  assume h: "venue_list = earlier @ current # later
            \<and> venue_loop e earlier (initial_state e d) = (Continue, reached)
            \<and> py_index current 0 = Inr written
            \<and> (\<forall>v \<in> set later. py_index v 0 \<noteq> Inr written)
            \<and> map_of (venue_dict (snd (loop_body e current reached))) written = Some cells
            \<and> locations_main e venue_list csv = (None, sm)"
  then have run: "locations_main e venue_list csv = (None, sm)"
    and before: "venue_loop e earlier (initial_state e d) = (Continue, reached)"
    and others: "\<forall>v \<in> set later. py_index v 0 \<noteq> Inr written"
    by blast+
  from locations_main_persisted [OF assms run] obtain fl s0 where
    loop: "venue_loop e venue_list (initial_state e d) = (fl, s0)" and s: "sm = backup_data s0"
    by blast
  from loop h have "venue_loop e (earlier @ current # later) (initial_state e d) = (fl, s0)"
    by simp
  from venue_loop_keeps_written [OF before this others] h
  have "map_of (venue_dict s0) written = Some cells" by simp
  with s show "PStr written # cells \<in> set (last (uploads sm))"
    by (simp add: backup_data_def write_dict_to_csv_record)
next
  assume h: "\<not> interrupt e (polls sf) \<and> py_index vf 0 = Inr nf
            \<and> map_of (venue_dict sf) nf = Some rf \<and> rf \<noteq> [] \<and> truthy (hd rf)
            \<and> foursquare_available sf \<and> py_index rf 1 = Inr link \<and> truthy link
            \<and> PStr [] \<in> set rf \<and> fst (search_foursquare e nf rf sf) = Inr matched"
  then have stored: "(\<forall>err. fst (loop_body e vf sf) \<noteq> Raised err)
         \<and> map_of (venue_dict (snd (loop_body e vf sf))) nf = Some (set_last5 rf matched)"
    by (intro loop_body_stores_lookup [where f = link]) simp_all
  from stored show "\<forall>err. fst (loop_body e vf sf) \<noteq> Raised err" by simp
  from stored show "map_of (venue_dict (snd (loop_body e vf sf))) nf
                      = Some (set_last5 rf matched)" by simp
next
  assume h: "\<not> interrupt e (polls su) \<and> py_index vu 0 = Inr nu
            \<and> needs_untappd (venue_dict su) nu = Inr True \<and> py_index vu 1 = Inr page
            \<and> fst (search_untappd e page su) = Inr found
            \<and> (\<not> truthy ((found @ [PStr [], PStr []]) ! 0) \<or> interrupt e (polls su + 1)
                \<or> \<not> foursquare_available su
                \<or> \<not> truthy ((found @ [PStr [], PStr []]) ! 1))"
  then have stored: "(\<forall>err. fst (loop_body e vu su) \<noteq> Raised err)
         \<and> map_of (venue_dict (snd (loop_body e vu su))) nu
             = Some (found @ [PStr [], PStr []])"
    by (intro loop_body_stores_page [where u = page]) simp_all
  from stored show "\<forall>err. fst (loop_body e vu su) \<noteq> Raised err" by simp
  from stored show "map_of (venue_dict (snd (loop_body e vu su))) nu
                      = Some (found @ [PStr [], PStr []])" by simp
next
  assume h: "\<not> interrupt e (polls sb) \<and> py_index vb 0 = Inr nb
            \<and> needs_untappd (venue_dict sb) nb = Inr True \<and> py_index vb 1 = Inr pageb
            \<and> fst (search_untappd e pageb sb) = Inr foundb
            \<and> truthy ((foundb @ [PStr [], PStr []]) ! 0) \<and> \<not> interrupt e (polls sb + 1)
            \<and> foursquare_available sb \<and> truthy ((foundb @ [PStr [], PStr []]) ! 1)
            \<and> fst (search_foursquare e nb (foundb @ [PStr [], PStr []]) sb) = Inr matchedb"
  then have stored: "(\<forall>err. fst (loop_body e vb sb) \<noteq> Raised err)
         \<and> map_of (venue_dict (snd (loop_body e vb sb))) nb
             = Some (set_last5 (foundb @ [PStr [], PStr []]) matchedb)"
    by (intro loop_body_stores_both [where u = pageb]) simp_all
  from stored show "\<forall>err. fst (loop_body e vb sb) \<noteq> Raised err" by simp
  from stored show "map_of (venue_dict (snd (loop_body e vb sb))) nb
                      = Some (set_last5 (foundb @ [PStr [], PStr []]) matchedb)" by simp
qed

theorem C9_registry_persisted_witness:
  "uploads (snd (locations_main env_stop [the_brewery, taproom] old_registry)) \<noteq> []
   \<and> last (uploads (snd (locations_main env_stop [the_brewery, taproom] old_registry)))
       = write_dict_to_csv
           (venue_dict (snd (locations_main env_stop [the_brewery, taproom] old_registry)))
   \<and> distinct (map hd
        (last (uploads (snd (locations_main env_stop [the_brewery, taproom] old_registry)))))
   \<and> PStr ''Old Town'' # map PStr row_complete
        \<in> set (last (uploads (snd (locations_main env_stop [the_brewery, taproom] old_registry))))
   \<and> (\<exists>data. PStr ''Old Town'' # data
        \<in> set (last (uploads (snd (locations_main env_stop [the_brewery, taproom] old_registry)))))
   \<and> fst (locations_main env_stop [the_brewery, taproom] old_registry) = None
   \<and> last (uploads (snd (locations_main env_stop [the_brewery, taproom] old_registry)))
       = write_dict_to_csv
           (venue_dict (snd (venue_loop env_stop [the_brewery]
              (initial_state env_stop [(''Old Town'', map PStr row_complete)]))))
   \<and> last (uploads (snd (locations_main env_stop [the_brewery, taproom] old_registry)))
       = [PStr ''Old Town'' # map PStr row_complete,
          [PStr ''The Brewery'', PStr ''https://untappd.com/v/the-brewery/1'',
           PStr ''https://foursquare.com/v/a1'', PStr ''1 Main St, San Diego'',
           PNum 33, PNum (- 117), PStr ''Brewery'', PBool True]]
   \<and> locations_main env_stop [the_brewery, taproom] old_registry
       = (None, backup_data (snd (venue_loop env_stop [the_brewery, taproom]
            (initial_state env_stop [(''Old Town'', map PStr row_complete)]))))
   \<and> [PStr ''The Brewery'', PStr ''https://untappd.com/v/the-brewery/1'',
       PStr ''https://foursquare.com/v/a1'', PStr ''1 Main St, San Diego'',
       PNum 33, PNum (- 117), PStr ''Brewery'', PBool True]
        \<in> set (last (uploads (snd (locations_main env_stop [the_brewery, taproom] old_registry))))
   \<and> map_of (venue_dict (snd (loop_body env_stop the_brewery
         (initial_state env_stop [(''The Brewery'', map PStr row_pending)])))) ''The Brewery''
       = Some (set_last5 (map PStr row_pending)
           [PStr ''1 Main St, San Diego'', PNum 33, PNum (- 117), PStr ''Brewery'',
            PBool True])
   \<and> map_of (venue_dict (snd (loop_body env_stop the_brewery
         ((initial_state env_stop [])\<lparr>foursquare_available := False\<rparr>)))) ''The Brewery''
       = Some ([PStr ''https://untappd.com/v/the-brewery/1'',
                PStr ''https://foursquare.com/v/a1'', PStr [], PStr ''32.7'',
                PStr ''-117.1''] @ [PStr [], PStr []])
   \<and> map_of (venue_dict (snd (loop_body env_stop the_brewery (initial_state env_stop []))))
         ''The Brewery''
       = Some (set_last5 ([PStr ''https://untappd.com/v/the-brewery/1'',
                           PStr ''https://foursquare.com/v/a1'', PStr [], PStr ''32.7'',
                           PStr ''-117.1''] @ [PStr [], PStr []])
           [PStr ''1 Main St, San Diego'', PNum 33, PNum (- 117), PStr ''Brewery'',
            PBool True])"
proof -
  let ?d = "[(''Old Town'', map PStr row_complete)]"
  let ?m = "locations_main env_stop [the_brewery, taproom] old_registry"
  let ?first = "venue_loop env_stop [the_brewery] (initial_state env_stop ?d)"
  let ?loop = "venue_loop env_stop [the_brewery, taproom] (initial_state env_stop ?d)"
  let ?resolved = "[PStr ''https://untappd.com/v/the-brewery/1'',
       PStr ''https://foursquare.com/v/a1'', PStr ''1 Main St, San Diego'',
       PNum 33, PNum (- 117), PStr ''Brewery'', PBool True]"
  let ?found = "[PStr ''https://untappd.com/v/the-brewery/1'',
       PStr ''https://foursquare.com/v/a1'', PStr [], PStr ''32.7'', PStr ''-117.1'']"
  let ?matched = "[PStr ''1 Main St, San Diego'', PNum 33, PNum (- 117), PStr ''Brewery'',
       PBool True]"
  let ?pending = "initial_state env_stop [(''The Brewery'', map PStr row_pending)]"
  let ?closed = "(initial_state env_stop [])\<lparr>foursquare_available := False\<rparr>"
  let ?fresh = "initial_state env_stop []"
  let ?page = "''https://untappd.com/user/alice/checkin/1''"
  have rd: "read_csv_to_dict old_registry = Inr ?d"
    by (simp add: read_csv_to_dict_def old_registry_def)
  have "fst ?m = None" by code_simp
  then have run: "?m = (None, snd ?m)" by (metis prod.collapse)
  have old: "map_of ?d ''Old Town'' = Some (map PStr row_complete)" by simp
  have resolved: "settled (map PStr row_complete)"
    by (simp add: settled_def row_complete_def)
  have known: "''Old Town'' \<in> set (map fst ?d)" by simp
  have parts: "[the_brewery, taproom] = [the_brewery] @ taproom # []" by simp
  have "fst ?first = Continue" by code_simp
  then have first: "?first = (Continue, snd ?first)" by (metis prod.collapse)
  have stop: "interrupt env_stop (polls (snd ?first))" by code_simp
  have stopped: "fst ?loop = Interrupted" by code_simp
  then have caught: "\<forall>err. fst ?loop \<noteq> Raised err" by simp
  have rows: "last (uploads (snd ?m)) = [PStr ''Old Town'' # map PStr row_complete,
          PStr ''The Brewery'' # ?resolved]"
    by code_simp
  from stopped have ended: "?loop = (Interrupted, snd ?loop)" by (metis prod.collapse)
  have uncaught: "\<forall>err. Interrupted \<noteq> Raised err" by simp
  have split_list: "[the_brewery, taproom] = [] @ the_brewery # [taproom]" by simp
  have start: "venue_loop env_stop [] (initial_state env_stop ?d)
                 = (Continue, initial_state env_stop ?d)"
    by simp
  have name: "py_index the_brewery 0 = Inr ''The Brewery''" by code_simp
  have page: "py_index the_brewery 1 = Inr ?page" by code_simp
  have later: "\<forall>v \<in> set [taproom]. py_index v 0 \<noteq> Inr ''The Brewery''"
    by (simp add: taproom_def py_index_def)
  have written: "map_of (venue_dict (snd (loop_body env_stop the_brewery
                   (initial_state env_stop ?d)))) ''The Brewery'' = Some ?resolved"
    by code_simp
  have quiet_f: "\<not> interrupt env_stop (polls ?pending)" by code_simp
  have rec_f: "map_of (venue_dict ?pending) ''The Brewery'' = Some (map PStr row_pending)"
    by (simp add: initial_state_def)
  have full_f: "map PStr row_pending \<noteq> []" by (simp add: row_pending_def)
  have page_f: "truthy (hd (map PStr row_pending))" by code_simp
  have open_f: "foursquare_available ?pending" by (simp add: initial_state_def)
  have link_f: "py_index (map PStr row_pending) 1 = Inr (PStr ''https://foursquare.com/v/a1'')"
    by code_simp
  have link_t: "truthy (PStr ''https://foursquare.com/v/a1'')" by code_simp
  have gap_f: "PStr [] \<in> set (map PStr row_pending)" by (simp add: row_pending_def)
  have match_f: "fst (search_foursquare env_stop ''The Brewery'' (map PStr row_pending) ?pending)
                   = Inr ?matched"
    by code_simp
  have quiet_c: "\<not> interrupt env_stop (polls ?closed)" by code_simp
  have need_c: "needs_untappd (venue_dict ?closed) ''The Brewery'' = Inr True" by code_simp
  have found_c: "fst (search_untappd env_stop ?page ?closed) = Inr ?found" by code_simp
  have shut_c: "\<not> foursquare_available ?closed" by simp
  have quiet_n: "\<not> interrupt env_stop (polls ?fresh)" by code_simp
  have need_n: "needs_untappd (venue_dict ?fresh) ''The Brewery'' = Inr True" by code_simp
  have found_n: "fst (search_untappd env_stop ?page ?fresh) = Inr ?found" by code_simp
  have page_n: "truthy ((?found @ [PStr [], PStr []]) ! 0)" by code_simp
  have pause_n: "\<not> interrupt env_stop (polls ?fresh + 1)" by code_simp
  have open_n: "foursquare_available ?fresh" by (simp add: initial_state_def)
  have link_n: "truthy ((?found @ [PStr [], PStr []]) ! 1)" by code_simp
  have match_n: "fst (search_foursquare env_stop ''The Brewery''
                   (?found @ [PStr [], PStr []]) ?fresh) = Inr ?matched"
    by code_simp
  from C9_registry_persisted
         [OF rd, where e = env_stop and venue_list = "[the_brewery, taproom]"
            and s = "snd ?m" and name = "''Old Town''" and row = "map PStr row_complete"
            and known = "''Old Town''" and pre = "[the_brewery]" and venue = taproom
            and rest = "[]" and ?s1.0 = "snd ?first"
            and ended = Interrupted and final = "snd ?loop"
            and earlier = "[]" and current = the_brewery and later = "[taproom]"
            and reached = "initial_state env_stop ?d" and written = "''The Brewery''"
            and cells = ?resolved and sm = "snd ?m"
            and sf = ?pending and vf = the_brewery and nf = "''The Brewery''"
            and rf = "map PStr row_pending" and link = "PStr ''https://foursquare.com/v/a1''"
            and matched = ?matched
            and su = ?closed and vu = the_brewery and nu = "''The Brewery''"
            and page = ?page and found = ?found
            and sb = ?fresh and vb = the_brewery and nb = "''The Brewery''"
            and pageb = ?page and foundb = ?found and matchedb = ?matched]
       run old resolved known parts first stop caught rows ended uncaught split_list start
       name page later written quiet_f rec_f full_f page_f open_f link_f link_t gap_f match_f
       quiet_c need_c found_c shut_c quiet_n need_n found_n page_n pause_n open_n link_n
       match_n
  show ?thesis by blast
qed

section \<open>C10: the coordinates after a failed lookup\<close>







section \<open>C6: the parse cursor and the aggregate log\<close>








end
